theory Spec2Isabelle
  imports Complex_Main "HOL-Library.AList"
begin

section \<open>Python values and built-ins used by the pipeline\<close>

text \<open>
  A Python \<open>str\<close> is modelled as a \<open>string\<close>; one \<open>char\<close> stands for one character of
  the Python string, so \<open>length\<close> is Python's \<open>len\<close>. Python integers are \<open>int\<close>.
  Floating-point numbers are idealised as reals; the one non-finite value the code can
  produce without raising (\<open>0/0\<close> in numpy) is kept as \<open>NaN\<close>.
\<close>

datatype pyval = PStr string | PInt int | PNone

type_synonym pydict = "(string \<times> pyval) list"

datatype fnum = Fin real | NaN

type_synonym vec = "fnum list"

text \<open>Characters on which \<open>str.split()\<close> splits (Python's whitespace below code point 256).\<close>

definition is_space :: "char \<Rightarrow> bool" where
  "is_space c = (c \<in> set [CHR 0x09, CHR 0x0A, CHR 0x0B, CHR 0x0C, CHR 0x0D,
                           CHR 0x1C, CHR 0x1D, CHR 0x1E, CHR 0x1F, CHR 0x20,
                           CHR 0x85, CHR 0xA0])"

text \<open>\<open>text.split()\<close>: maximal runs of non-whitespace characters; \<open>cur\<close> is the word being read.\<close>

fun split_ws :: "string \<Rightarrow> string \<Rightarrow> string list" where
  "split_ws cur [] = (if cur = [] then [] else [cur])"
| "split_ws cur (c # cs) =
     (if is_space c then (if cur = [] then split_ws [] cs else cur # split_ws [] cs)
      else split_ws (cur @ [c]) cs)"

definition py_split :: "string \<Rightarrow> string list" where
  "py_split text = split_ws [] text"

text \<open>\<open>sep.join(ws)\<close>.\<close>

fun py_join :: "string \<Rightarrow> string list \<Rightarrow> string" where
  "py_join sep [] = []"
| "py_join sep [w] = w"
| "py_join sep (w # ws) = w @ sep @ py_join sep ws"

text \<open>\<open>xs[i:j]\<close> with Python's treatment of negative and out-of-range bounds.\<close>

definition py_slice :: "'a list \<Rightarrow> int \<Rightarrow> int \<Rightarrow> 'a list" where
  "py_slice xs i j =
     (let n = int (length xs);
          s = (if i < 0 then max (i + n) 0 else min i n);
          e = (if j < 0 then max (j + n) 0 else min j n)
      in take (nat (e - s)) (drop (nat s) xs))"

text \<open>\<open>s.startswith(p)\<close>, \<open>s.endswith(p)\<close> and \<open>sub in s\<close>.\<close>

fun starts_with :: "string \<Rightarrow> string \<Rightarrow> bool" where
  "starts_with [] s = True"
| "starts_with (p # ps) [] = False"
| "starts_with (p # ps) (c # cs) = (p = c \<and> starts_with ps cs)"

definition ends_with :: "string \<Rightarrow> string \<Rightarrow> bool" where
  "ends_with p s = starts_with (rev p) (rev s)"

fun contains :: "string \<Rightarrow> string \<Rightarrow> bool" where
  "contains sub [] = (sub = [])"
| "contains sub (c # cs) = (starts_with sub (c # cs) \<or> contains sub cs)"

text \<open>
  \<open>s.lower()\<close> on the letters \<open>A\<close> to \<open>Z\<close>. No other character lower-cases to a letter of
  \<open>quota\<close> or \<open>rate\<close>, the only strings searched for in a lower-cased text.
\<close>

definition lower_char :: "char \<Rightarrow> char" where
  "lower_char c =
     (case map_of (zip ''ABCDEFGHIJKLMNOPQRSTUVWXYZ'' ''abcdefghijklmnopqrstuvwxyz'') c of
        Some l \<Rightarrow> l
      | None \<Rightarrow> c)"

definition py_lower :: "string \<Rightarrow> string" where
  "py_lower s = map lower_char s"

text \<open>\<open>str(n)\<close> for integers, and \<open>str(v)\<close> as an f-string renders a value.\<close>

definition digit_char :: "nat \<Rightarrow> char" where
  "digit_char d = ''0123456789'' ! d"

fun str_nat :: "nat \<Rightarrow> string" where
  "str_nat n = (if n < 10 then [digit_char n] else str_nat (n div 10) @ [digit_char (n mod 10)])"

declare str_nat.simps [simp del]

definition str_int :: "int \<Rightarrow> string" where
  "str_int i = (if i < 0 then CHR ''-'' # str_nat (nat (- i)) else str_nat (nat i))"

fun py_str :: "pyval \<Rightarrow> string" where
  "py_str (PStr s) = s"
| "py_str (PInt i) = str_int i"
| "py_str PNone = ''None''"

text \<open>\<open>fname.replace('.md', '')\<close>: every occurrence of \<open>.md\<close> is removed, left to right.\<close>

function remove_md :: "string \<Rightarrow> string" where
  "remove_md s =
     (if s = [] then []
      else if starts_with ''.md'' s then remove_md (drop 3 s)
      else hd s # remove_md (tl s))"
  by pat_completeness auto
termination
  by (relation "measure length") auto

declare remove_md.simps [simp del]

text \<open>\<open>{"text": t, **m}\<close>: the keys of \<open>m\<close> are written over the one-entry dictionary.\<close>

definition dict_with_text :: "string \<Rightarrow> pydict \<Rightarrow> pydict" where
  "dict_with_text t m = fold (\<lambda>(k, v) d. AList.update k v d) m [(''text'', PStr t)]"

section \<open>embedding.py: the chunker\<close>

definition CHUNK_SIZE :: int where "CHUNK_SIZE = 2000"
definition CHUNK_OVERLAP :: int where "CHUNK_OVERLAP = 200"
definition BATCH_SIZE :: nat where "BATCH_SIZE = 100"
definition EMBED_DIM :: nat where "EMBED_DIM = 768"

text \<open>
  The \<open>while\<close> loop of \<open>chunk_by_words\<close>. It need not terminate, so it is a partial
  function: \<open>None\<close> is the run that never returns. The function raises nothing.
\<close>

partial_function (option) chunk_loop ::
  "string list \<Rightarrow> int \<Rightarrow> int \<Rightarrow> int \<Rightarrow> string list \<Rightarrow> string list option" where
  "chunk_loop words max_words overlap start chunks =
     (if start < int (length words) then
        (let end = min (start + max_words) (int (length words));
             chunk = py_join '' '' (py_slice words start end)
         in chunk_loop words max_words overlap (start + (max_words - overlap)) (chunks @ [chunk]))
      else Some chunks)"

declare chunk_loop.simps [code]

definition chunk_by_words :: "string \<Rightarrow> int \<Rightarrow> int \<Rightarrow> string list option" where
  "chunk_by_words text max_words overlap = chunk_loop (py_split text) max_words overlap 0 []"

text \<open>
  The Chunker as the specification words it, for comparison: windows
  \<open>[start, start + window_words)\<close> joined by single spaces, \<open>start\<close> advancing by
  \<open>step = window_words - overlap_words\<close> until it reaches the word count. Window number \<open>i\<close>
  starts at word \<open>i * step\<close>, and there are \<open>\<lceil>n / step\<rceil>\<close> windows over \<open>n\<close> words.
\<close>

definition spec_window :: "string list \<Rightarrow> nat \<Rightarrow> nat \<Rightarrow> nat \<Rightarrow> string" where
  "spec_window words window step i = py_join '' '' (take window (drop (i * step) words))"

definition spec_chunks :: "string list \<Rightarrow> nat \<Rightarrow> nat \<Rightarrow> string list" where
  "spec_chunks words window step =
     map (spec_window words window step) [0 ..< (length words + step - 1) div step]"

section \<open>embedding.py: the embedding client\<close>

text \<open>
  The embedding provider is an oracle with a state of its own: given its state and a text it
  answers and moves to a new state. \<open>Inl msg\<close> is an exception raised inside \<open>embed_text\<close>
  whose \<open>str(e)\<close> is \<open>msg\<close>; \<open>Inr raw\<close> is the list \<open>result['embedding']\<close>.
\<close>

type_synonym 's provider = "'s \<Rightarrow> string \<Rightarrow> (string + real list) \<times> 's"

datatype embed_error =
    ProviderError string  \<comment> \<open>an exception of \<open>embed_text\<close>, with its message\<close>
  | BroadcastError        \<comment> \<open>numpy cannot add two arrays of these shapes\<close>
  | ShapeError            \<comment> \<open>\<open>np.array\<close> or \<open>index.add\<close> rejects the array of embeddings\<close>

text \<open>
  The state the module works on: the provider, the two global stores \<open>index\<close> and
  \<open>metadata\<close>, and two logs kept for the statements below: the arguments of
  \<open>time.sleep\<close> and the texts sent to the provider, both in order.
\<close>

record 's world =
  prov :: 's
  waits :: "int list"
  sent :: "string list"
  index :: "vec list"
  metadata :: "pydict list"

definition l2_norm :: "real list \<Rightarrow> real" where
  "l2_norm xs = sqrt (\<Sum>x\<leftarrow>xs. x\<^sup>2)"

text \<open>\<open>embedding / np.linalg.norm(embedding)\<close>: a zero norm gives \<open>0/0\<close> in every component.\<close>

definition normalize :: "real list \<Rightarrow> vec" where
  "normalize raw = (let n = l2_norm raw in map (\<lambda>x. if n = 0 then NaN else Fin (x / n)) raw)"

definition embed_text :: "'s provider \<Rightarrow> 's world \<Rightarrow> string \<Rightarrow> (embed_error + vec) \<times> 's world" where
  "embed_text P w text =
     (let (r, s') = P (prov w) text;
          w' = w\<lparr>prov := s', sent := sent w @ [text]\<rparr>
      in case r of
           Inl msg \<Rightarrow> (Inl (ProviderError msg), w')
         | Inr raw \<Rightarrow> (Inr (normalize raw), w'))"

text \<open>\<open>"quota" in str(e).lower() or "rate" in str(e).lower()\<close>.\<close>

definition is_rate_limit :: "string \<Rightarrow> bool" where
  "is_rate_limit msg = (contains ''quota'' (py_lower msg) \<or> contains ''rate'' (py_lower msg))"

fun err_is_rate_limit :: "embed_error \<Rightarrow> bool" where
  "err_is_rate_limit (ProviderError msg) = is_rate_limit msg"
| "err_is_rate_limit _ = False"

fun fadd :: "fnum \<Rightarrow> fnum \<Rightarrow> fnum" where
  "fadd (Fin a) (Fin b) = Fin (a + b)"
| "fadd _ _ = NaN"

fun fhalf :: "fnum \<Rightarrow> fnum" where
  "fhalf (Fin a) = Fin (a / 2)"
| "fhalf NaN = NaN"

text \<open>
  \<open>np.array(left) + np.array(right)\<close> on one-dimensional arrays: equal lengths add
  element-wise, an array of length one is broadcast, any other pair of lengths raises.
\<close>

definition np_add :: "vec \<Rightarrow> vec \<Rightarrow> embed_error + vec" where
  "np_add a b =
     (if length a = length b then Inr (map2 fadd a b)
      else if length a = 1 then Inr (map (fadd (hd a)) b)
      else if length b = 1 then Inr (map (\<lambda>x. fadd x (hd b)) a)
      else Inl BroadcastError)"

definition np_average :: "vec \<Rightarrow> vec \<Rightarrow> embed_error + vec" where
  "np_average left right =
     (case np_add left right of Inl e \<Rightarrow> Inl e | Inr s \<Rightarrow> Inr (map fhalf s))"

text \<open>
  \<open>safe_embed\<close>. The recursive calls stand inside the \<open>except\<close> block, so an exception of
  theirs is not caught again: it leaves the function as it is.
\<close>

function safe_embed ::
  "'s provider \<Rightarrow> 's world \<Rightarrow> string \<Rightarrow> int \<Rightarrow> (embed_error + vec) \<times> 's world" where
  "safe_embed P w text retry_count =
     (case embed_text P w text of
        (Inr v, w1) \<Rightarrow> (Inr v, w1)
      | (Inl e, w1) \<Rightarrow>
          if err_is_rate_limit e then
            (if retry_count < 3 then
               (let wait_time = 10 * (retry_count + 1)
                in safe_embed P (w1\<lparr>waits := waits w1 @ [wait_time]\<rparr>) text (retry_count + 1))
             else (Inl e, w1))
          else if length text > 10000 then
            (let mid = length text div 2
             in case safe_embed P w1 (take mid text) 0 of
                  (Inl e1, w2) \<Rightarrow> (Inl e1, w2)
                | (Inr left, w2) \<Rightarrow>
                    (case safe_embed P w2 (drop mid text) 0 of
                       (Inl e2, w3) \<Rightarrow> (Inl e2, w3)
                     | (Inr right, w3) \<Rightarrow> (np_average left right, w3)))
          else (Inl e, w1))"
  by pat_completeness auto
termination
  by (relation "measures [\<lambda>(P, w, text, rc). length text, \<lambda>(P, w, text, rc). nat (3 - rc)]") auto

declare safe_embed.simps [simp del]

section \<open>embedding.py: ingestion\<close>

text \<open>The chunks of one markdown file: the \<open>enumerate\<close> loop appending to both batches.\<close>

definition markdown_meta :: "string \<Rightarrow> nat \<Rightarrow> nat \<Rightarrow> pydict" where
  "markdown_meta fname idx n_chunks =
     [(''source'', PStr (''Course: '' @ remove_md fname)),
      (''type'', PStr ''course_content''),
      (''chunk_id'', PInt (int idx)),
      (''total_chunks'', PInt (int n_chunks))]"

fun append_chunks ::
  "(nat \<Rightarrow> pydict) \<Rightarrow> (nat \<times> string) list \<Rightarrow> string list \<times> pydict list \<Rightarrow> string list \<times> pydict list" where
  "append_chunks mk [] (batch_texts, batch_meta) = (batch_texts, batch_meta)"
| "append_chunks mk ((idx, chunk) # rest) (batch_texts, batch_meta) =
     append_chunks mk rest (batch_texts @ [chunk], batch_meta @ [mk idx])"

fun md_files_loop ::
  "(string \<times> string) list \<Rightarrow> string list \<times> pydict list \<Rightarrow> (string list \<times> pydict list) option" where
  "md_files_loop [] batches = Some batches"
| "md_files_loop ((fname, text) # files) batches =
     (case chunk_by_words text CHUNK_SIZE CHUNK_OVERLAP of
        None \<Rightarrow> None
      | Some chunks \<Rightarrow>
          md_files_loop files
            (append_chunks (\<lambda>idx. markdown_meta fname idx (length chunks)) (enumerate 0 chunks) batches))"

text \<open>
  \<open>ingest_markdown_files\<close>. The argument is \<open>None\<close> when the directory \<open>markdown_files\<close> does
  not exist, and otherwise its listing: each file name with the plain text that
  \<open>load_markdown\<close> extracts from it. A result \<open>None\<close> is a run that never returns.
\<close>

definition ingest_markdown_files ::
  "(string \<times> string) list option \<Rightarrow> (string list \<times> pydict list) option" where
  "ingest_markdown_files markdown_dir =
     (case markdown_dir of
        None \<Rightarrow> Some ([], [])
      | Some listing \<Rightarrow> md_files_loop (filter (\<lambda>(f, text). ends_with ''.md'' f) listing) ([], []))"

text \<open>A post of \<open>discourse_posts.json\<close>, with the four fields the ingestion reads.\<close>

record post =
  topic_id :: int
  topic_title :: "pyval option"  \<comment> \<open>\<open>None\<close>: the key is absent\<close>
  post_number :: int
  content :: string

type_synonym topics = "(int \<times> pyval \<times> post list) list"

fun group_posts :: "post list \<Rightarrow> topics \<Rightarrow> topics" where
  "group_posts [] topics = topics"
| "group_posts (p # posts) topics =
     (let tid = topic_id p;
          topics1 = (if tid \<in> fst ` set topics then topics
                     else topics @ [(tid, (case topic_title p of None \<Rightarrow> PStr ''N/A'' | Some t \<Rightarrow> t), [])])
      in group_posts posts (AList.map_entry tid (\<lambda>(title, ps). (title, ps @ [p])) topics1))"

definition topic_text :: "pyval \<Rightarrow> post list \<Rightarrow> string" where
  "topic_text title posts_list =
     ''Topic: '' @ py_str title @ ''\<newline>\<newline>'' @
     py_join ''\<newline>\<newline>---\<newline>\<newline>''
       (map (\<lambda>p. ''Post #'' @ str_int (post_number p) @ '': '' @ content p) posts_list)"

definition discourse_meta :: "int \<Rightarrow> pyval \<Rightarrow> nat \<Rightarrow> nat \<Rightarrow> pydict" where
  "discourse_meta tid title idx n_chunks =
     [(''source'', PStr (''https://discourse.onlinedegree.iitm.ac.in/t/'' @ str_int tid)),
      (''type'', PStr ''discourse_post''),
      (''topic_id'', PInt tid),
      (''topic_title'', title),
      (''chunk_id'', PInt (int idx)),
      (''total_chunks'', PInt (int n_chunks))]"

fun topics_loop :: "topics \<Rightarrow> string list \<times> pydict list \<Rightarrow> (string list \<times> pydict list) option" where
  "topics_loop [] batches = Some batches"
| "topics_loop ((tid, title, posts) # rest) batches =
     (let posts_list = sort_key post_number posts
      in case chunk_by_words (topic_text title posts_list) CHUNK_SIZE CHUNK_OVERLAP of
           None \<Rightarrow> None
         | Some chunks \<Rightarrow>
             topics_loop rest
               (append_chunks (\<lambda>idx. discourse_meta tid title idx (length chunks)) (enumerate 0 chunks) batches))"

text \<open>
  \<open>ingest_discourse_json\<close>; the argument is \<open>None\<close> when the file does not exist and
  otherwise the list of posts it holds.
\<close>

definition ingest_discourse_json :: "post list option \<Rightarrow> (string list \<times> pydict list) option" where
  "ingest_discourse_json discourse_file =
     (case discourse_file of
        None \<Rightarrow> Some ([], [])
      | Some posts \<Rightarrow> topics_loop (group_posts posts []) ([], []))"

text \<open>The loop of \<open>index_batch\<close> that embeds the texts one after the other.\<close>

fun embed_loop ::
  "'s provider \<Rightarrow> 's world \<Rightarrow> string list \<Rightarrow> vec list \<Rightarrow> (embed_error + vec list) \<times> 's world" where
  "embed_loop P w [] embs = (Inr embs, w)"
| "embed_loop P w (text # texts) embs =
     (case safe_embed P w text 0 of
        (Inl e, w1) \<Rightarrow> (Inl e, w1)
      | (Inr emb, w1) \<Rightarrow> embed_loop P w1 texts (embs @ [emb]))"

text \<open>
  \<open>arr = np.array(embs, dtype=np.float32); index.add(arr)\<close>: the array must be a matrix of
  \<open>EMBED_DIM\<close> columns (at least one row, every row of that length), else one of the two
  calls raises and the index is left as it was.
\<close>

definition index_add :: "vec list \<Rightarrow> vec list \<Rightarrow> embed_error + vec list" where
  "index_add ix embs =
     (if embs = [] \<or> (\<exists>row \<in> set embs. length row \<noteq> EMBED_DIM) then Inl ShapeError
      else Inr (ix @ embs))"

definition index_batch ::
  "'s provider \<Rightarrow> 's world \<Rightarrow> string list \<Rightarrow> pydict list \<Rightarrow> (embed_error + unit) \<times> 's world" where
  "index_batch P w texts metas =
     (case embed_loop P w texts [] of
        (Inl e, w1) \<Rightarrow> (Inl e, w1)
      | (Inr embs, w1) \<Rightarrow>
          (case index_add (index w1) embs of
             Inl e \<Rightarrow> (Inl e, w1)
           | Inr ix \<Rightarrow>
               (Inr (),
                w1\<lparr>index := ix,
                   metadata := metadata w1 @ map (\<lambda>(t, m). dict_with_text t m) (zip texts metas)\<rparr>)))"

text \<open>The batch loop of \<open>main\<close>: \<open>for i in range(0, len(all_texts), BATCH_SIZE)\<close>.\<close>

function batch_loop ::
  "'s provider \<Rightarrow> 's world \<Rightarrow> string list \<Rightarrow> pydict list \<Rightarrow> nat \<Rightarrow> (embed_error + unit) \<times> 's world" where
  "batch_loop P w all_texts all_meta i =
     (if i < length all_texts then
        (let batch_texts = take BATCH_SIZE (drop i all_texts);
             batch_meta = take BATCH_SIZE (drop i all_meta)
         in case index_batch P w batch_texts batch_meta of
              (Inl e, w1) \<Rightarrow> (Inl e, w1)
            | (Inr u, w1) \<Rightarrow> batch_loop P w1 all_texts all_meta (i + BATCH_SIZE))
      else (Inr (), w))"
  by pat_completeness auto
termination
  by (relation "measure (\<lambda>(P, w, all_texts, all_meta, i). length all_texts - i)")
     (auto simp: BATCH_SIZE_def)

declare batch_loop.simps [simp del]

text \<open>
  \<open>main\<close>. The result is \<open>None\<close> if a chunker loop never returns; otherwise the outcome with
  the final state. A completed run returns what it saves (the index and the metadata), or
  nothing when it found no data.
\<close>

definition main ::
  "'s provider \<Rightarrow> 's world \<Rightarrow> (string \<times> string) list option \<Rightarrow> post list option \<Rightarrow>
   ((embed_error + (vec list \<times> pydict list) option) \<times> 's world) option" where
  "main P w markdown_dir discourse_file =
     (case ingest_markdown_files markdown_dir of
        None \<Rightarrow> None
      | Some (md_texts, md_meta) \<Rightarrow>
          (case ingest_discourse_json discourse_file of
             None \<Rightarrow> None
           | Some (disc_texts, disc_meta) \<Rightarrow>
               (let all_texts = md_texts @ disc_texts;
                    all_meta = md_meta @ disc_meta
                in if all_texts = [] then Some (Inr None, w)
                   else (case batch_loop P w all_texts all_meta 0 of
                           (Inl e, w1) \<Rightarrow> Some (Inl e, w1)
                         | (Inr u, w1) \<Rightarrow> Some (Inr (Some (index w1, metadata w1)), w1)))))"

text \<open>The module as loaded: an empty index, no metadata, nothing slept or sent yet.\<close>

definition module_init :: "'s \<Rightarrow> 's world" where
  "module_init s = \<lparr>prov = s, waits = [], sent = [], index = [], metadata = []\<rparr>"

section \<open>app.py: retrieval\<close>

definition SIMILARITY_THRESHOLD :: real where "SIMILARITY_THRESHOLD = 0"
definition TOP_K_RESULTS :: int where "TOP_K_RESULTS = 5"

text \<open>
  Both functions of \<open>app.py\<close> turn every exception into an \<open>HTTPException\<close> with status
  500; the two constructors tell the \<open>Search error\<close> from the \<open>Generation error\<close>.
  The global list \<open>metadata\<close> loaded at start-up is the parameter \<open>mdata\<close>.
\<close>

datatype http_error = SearchError | GenerationError

text \<open>The dictionary that \<open>search_similar\<close> builds for a kept candidate.\<close>

record retrieved =
  content :: pyval
  source :: pyval
  rtype :: pyval
  similarity :: real
  chunk_id :: pyval

text \<open>
  \<open>index.search(query_vector, k)\<close> of the loaded FAISS index. The index answers through
  the parameter \<open>raw\<close> (the pairs of \<open>zip(distances[0], indices[0])\<close>, or \<open>None\<close> when the
  call raises); the Python wrapper of FAISS asserts \<open>k > 0\<close> first. The distances are only
  compared with each other and with the threshold, which real numbers do as floats do.
\<close>

definition index_search ::
  "('q \<Rightarrow> nat \<Rightarrow> (real \<times> int) list option) \<Rightarrow> 'q \<Rightarrow> int \<Rightarrow> (real \<times> int) list option" where
  "index_search raw q k = (if k > 0 then raw q (nat k) else None)"

text \<open>The \<open>for\<close> loop over the candidates; \<open>None\<close> is a \<open>KeyError\<close> of \<open>meta[...]\<close>.\<close>

fun gather_results :: "pydict list \<Rightarrow> (real \<times> int) list \<Rightarrow> retrieved list \<Rightarrow> retrieved list option" where
  "gather_results mdata [] results = Some results"
| "gather_results mdata ((distance, idx) # rest) results =
     (if idx < 0 \<or> idx \<ge> int (length mdata) then gather_results mdata rest results
      else
        (let similarity = distance
         in if similarity \<ge> SIMILARITY_THRESHOLD then
              (let meta = mdata ! nat idx
               in case (map_of meta ''text'', map_of meta ''source'', map_of meta ''type'') of
                    (Some t, Some s, Some ty) \<Rightarrow>
                      gather_results mdata rest
                        (results @
                         [\<lparr>content = t, source = s, rtype = ty, similarity = similarity,
                           chunk_id = (case map_of meta ''chunk_id'' of Some c \<Rightarrow> c | None \<Rightarrow> PInt 0)\<rparr>])
                  | _ \<Rightarrow> None)
            else gather_results mdata rest results))"

text \<open>
  \<open>search_similar\<close>. \<open>results.sort(key=..., reverse=True)\<close> is Python's stable sort with
  the order of the keys reversed, that is a stable ascending sort on the negated key.
\<close>

definition search_similar ::
  "('q \<Rightarrow> nat \<Rightarrow> (real \<times> int) list option) \<Rightarrow> pydict list \<Rightarrow> 'q \<Rightarrow> int \<Rightarrow>
   http_error + retrieved list" where
  "search_similar raw mdata query_embedding top_k =
     (case index_search raw query_embedding (top_k * 2) of
        None \<Rightarrow> Inl SearchError
      | Some candidates \<Rightarrow>
          (case gather_results mdata candidates [] of
             None \<Rightarrow> Inl SearchError
           | Some results \<Rightarrow>
               Inr (py_slice (sort_key (\<lambda>x. - similarity x) results) 0 top_k)))"

text \<open>
  For comparison, retrieval with no threshold filtering at all: the same loop and the same
  function without the test against \<open>SIMILARITY_THRESHOLD\<close>.
\<close>

fun gather_unfiltered :: "pydict list \<Rightarrow> (real \<times> int) list \<Rightarrow> retrieved list \<Rightarrow> retrieved list option" where
  "gather_unfiltered mdata [] results = Some results"
| "gather_unfiltered mdata ((distance, idx) # rest) results =
     (if idx < 0 \<or> idx \<ge> int (length mdata) then gather_unfiltered mdata rest results
      else
        (let similarity = distance; meta = mdata ! nat idx
         in case (map_of meta ''text'', map_of meta ''source'', map_of meta ''type'') of
              (Some t, Some s, Some ty) \<Rightarrow>
                gather_unfiltered mdata rest
                  (results @
                   [\<lparr>content = t, source = s, rtype = ty, similarity = similarity,
                     chunk_id = (case map_of meta ''chunk_id'' of Some c \<Rightarrow> c | None \<Rightarrow> PInt 0)\<rparr>])
            | _ \<Rightarrow> None))"

definition search_unfiltered ::
  "('q \<Rightarrow> nat \<Rightarrow> (real \<times> int) list option) \<Rightarrow> pydict list \<Rightarrow> 'q \<Rightarrow> int \<Rightarrow>
   http_error + retrieved list" where
  "search_unfiltered raw mdata query_embedding top_k =
     (case index_search raw query_embedding (top_k * 2) of
        None \<Rightarrow> Inl SearchError
      | Some candidates \<Rightarrow>
          (case gather_unfiltered mdata candidates [] of
             None \<Rightarrow> Inl SearchError
           | Some results \<Rightarrow>
               Inr (py_slice (sort_key (\<lambda>x. - similarity x) results) 0 top_k)))"

text \<open>
  What the retrieval algorithm of the specification keeps of a candidate list, and the
  record it resolves a kept candidate to.
\<close>

definition in_range :: "pydict list \<Rightarrow> int \<Rightarrow> bool" where
  "in_range mdata idx = (0 \<le> idx \<and> idx < int (length mdata))"

definition kept :: "pydict list \<Rightarrow> (real \<times> int) list \<Rightarrow> (real \<times> int) list" where
  "kept mdata candidates =
     filter (\<lambda>(distance, idx). in_range mdata idx \<and> distance \<ge> SIMILARITY_THRESHOLD) candidates"

definition resolve :: "pydict list \<Rightarrow> real \<times> int \<Rightarrow> retrieved option" where
  "resolve mdata c =
     (let meta = mdata ! nat (snd c)
      in case (map_of meta ''text'', map_of meta ''source'', map_of meta ''type'') of
           (Some t, Some s, Some ty) \<Rightarrow>
             Some \<lparr>content = t, source = s, rtype = ty, similarity = fst c,
                   chunk_id = (case map_of meta ''chunk_id'' of Some c \<Rightarrow> c | None \<Rightarrow> PInt 0)\<rparr>
         | _ \<Rightarrow> None)"

section \<open>app.py: answer assembly\<close>

text \<open>
  The generative model is an oracle with a state: it raises, or replies with a response
  whose \<open>text\<close> is a string or \<open>None\<close>. The state of the application keeps, beside the
  oracle's state, the log of the prompts sent to it.
\<close>

datatype gen_reply = Raises | Reply "string option"

type_synonym 'g generator = "'g \<Rightarrow> string \<Rightarrow> gen_reply \<times> 'g"

record 'g llm =
  gstate :: 'g
  prompts :: "string list"

record query_response =
  answer :: string
  links :: "(pyval \<times> string) list"

definition no_answer :: string where
  "no_answer = ''I couldn'' @ [CHR 0x27] @ ''t find any relevant information in my knowledge base.''"

text \<open>
  The loop that builds \<open>context_parts\<close> and \<open>sources_used\<close>. Slicing \<open>chunk["content"]\<close>
  raises unless the content is a string: that is the result \<open>None\<close>.
\<close>

fun context_loop ::
  "(nat \<times> retrieved) list \<Rightarrow> string list \<Rightarrow> (nat \<times> pyval \<times> string) list \<Rightarrow>
   (string list \<times> (nat \<times> pyval \<times> string) list) option" where
  "context_loop [] context_parts sources_used = Some (context_parts, sources_used)"
| "context_loop ((i, chunk) # rest) context_parts sources_used =
     (let source_url = source chunk
      in case content chunk of
           PStr c \<Rightarrow>
             context_loop rest
               (context_parts @ [''[Source '' @ str_nat (i + 1) @ '']:\<newline>'' @ c @ ''\<newline>''])
               (AList.update (i + 1) (source_url, take 150 c) sources_used)
         | _ \<Rightarrow> None)"

definition make_prompt :: "string \<Rightarrow> string \<Rightarrow> string" where
  "make_prompt context question =
     ''You are a helpful teaching assistant. Answer the student'' @ [CHR 0x27] @
     ''s question using ONLY the provided context below.\<newline>\<newline>Context:\<newline>'' @ context @
     ''\<newline>\<newline>Question: '' @ question @
     ''\<newline>\<newline>Instructions:\<newline>'' @
     ''1. Provide a clear, comprehensive answer based on the context\<newline>'' @
     ''2. If the context doesn'' @ [CHR 0x27] @ ''t contain enough information, say so\<newline>'' @
     ''3. Reference specific sources when making claims (e.g., '' @ [CHR 0x22] @
     ''According to Source 1...'' @ [CHR 0x22] @ '')\<newline>'' @
     ''4. Be concise but thorough\<newline>\<newline>Answer:''"

definition generate_answer ::
  "'g generator \<Rightarrow> 'g llm \<Rightarrow> string \<Rightarrow> retrieved list \<Rightarrow> (http_error + query_response) \<times> 'g llm" where
  "generate_answer G w question context_chunks =
     (if context_chunks = [] then (Inr \<lparr>answer = no_answer, links = []\<rparr>, w)
      else
        (case context_loop (enumerate 0 context_chunks) [] [] of
           None \<Rightarrow> (Inl GenerationError, w)
         | Some (context_parts, sources_used) \<Rightarrow>
             (let context = py_join ''\<newline>'' context_parts;
                  prompt = make_prompt context question;
                  (reply, g') = G (gstate w) prompt;
                  w' = \<lparr>gstate = g', prompts = prompts w @ [prompt]\<rparr>
              in case reply of
                   Raises \<Rightarrow> (Inl GenerationError, w')
                 | Reply None \<Rightarrow> (Inl GenerationError, w')
                 | Reply (Some answer_text) \<Rightarrow>
                     (Inr \<lparr>answer = answer_text,
                           links = map (\<lambda>(source_num, url, snippet). (url, snippet)) sources_used\<rparr>,
                      w'))))"

section \<open>Terms of the statements, and example providers\<close>

text \<open>
  \<open>rate_limited_run P s text k = Some s'\<close>: called \<open>k\<close> times in a row on \<open>text\<close>, from
  the state \<open>s\<close>, the provider signals a rate-limit or quota failure each time, and is then
  in the state \<open>s'\<close>.
\<close>

fun rate_limited_run :: "'s provider \<Rightarrow> 's \<Rightarrow> string \<Rightarrow> nat \<Rightarrow> 's option" where
  "rate_limited_run P s text 0 = Some s"
| "rate_limited_run P s text (Suc k) =
     (case P s text of
        (Inl msg, s') \<Rightarrow> if is_rate_limit msg then rate_limited_run P s' text k else None
      | (Inr raw, s') \<Rightarrow> None)"

text \<open>The first \<open>k\<close> waits of the linear backoff: 10, 20, 30, and so on.\<close>

definition backoff :: "nat \<Rightarrow> int list" where
  "backoff k = map (\<lambda>i. 10 * (int i + 1)) [0 ..< k]"

text \<open>The L2 norm of an embedding; there is none when a component is \<open>NaN\<close>.\<close>

definition vec_norm :: "vec \<Rightarrow> real option" where
  "vec_norm v =
     (if NaN \<in> set v then None
      else Some (l2_norm (map (\<lambda>x. case x of Fin r \<Rightarrow> r | NaN \<Rightarrow> 0) v)))"

text \<open>
  A provider that counts its calls in its state and signals a rate limit on the first \<open>k\<close>
  of them, and a provider that rejects every text of more than 10000 characters with an
  error that is no rate limit and embeds the others as the first or the second unit
  vector of \<open>EMBED_DIM\<close> dimensions.
\<close>

definition rate_limited_then_ok :: "nat \<Rightarrow> nat provider" where
  "rate_limited_then_ok k n text =
     (if n < k then Inl ''429 Rate limit exceeded'' else Inr (1 # 0 # replicate 766 0), Suc n)"

definition too_long_provider :: "unit provider" where
  "too_long_provider s text =
     (if length text > 10000 then Inl ''400 payload too large''
      else if CHR ''a'' \<in> set text then Inr (1 # 0 # replicate 766 0)
      else Inr (0 # 1 # replicate 766 0), s)"

definition long_text :: string where
  "long_text = replicate 6000 CHR ''a'' @ replicate 6000 CHR ''b''"

text \<open>
  A provider that embeds every text as the first unit vector of \<open>EMBED_DIM\<close> dimensions, and
  the state in which it leaves the module after the one-chunk file \<open>a.md\<close> is ingested.
\<close>

definition unit_provider :: "unit provider" where
  "unit_provider s text = (Inr (1 # 0 # replicate 766 0), s)"

definition unit_vec :: vec where
  "unit_vec = Fin 1 # Fin 0 # replicate 766 (Fin 0)"

definition unit_vec2 :: vec where
  "unit_vec2 = Fin 0 # Fin 1 # replicate 766 (Fin 0)"

definition half_vec :: vec where
  "half_vec = Fin (1/2) # Fin (1/2) # replicate 766 (Fin 0)"

definition hello_record :: pydict where
  "hello_record =
     [(''text'', PStr ''hello world''), (''source'', PStr ''Course: a''),
      (''type'', PStr ''course_content''), (''chunk_id'', PInt 0), (''total_chunks'', PInt 1)]"

definition hello_world :: "unit world" where
  "hello_world =
     \<lparr>prov = (), waits = [], sent = [''hello world''], index = [unit_vec], metadata = [hello_record]\<rparr>"

text \<open>
  The state in which the second example provider leaves the module after one batch of the
  two texts \<open>a\<close> and \<open>b\<close>, which it embeds as two different vectors.
\<close>

definition ab_world :: "unit world" where
  "ab_world =
     \<lparr>prov = (), waits = [], sent = [''a'', ''b''], index = [unit_vec, unit_vec2],
      metadata = [[(''text'', PStr ''a''), (''chunk_id'', PInt 0)],
                  [(''text'', PStr ''b''), (''chunk_id'', PInt 1)]]\<rparr>"

text \<open>
  A second metadata record, three answers of an index, each in descending order of
  similarity (the first with a tie, with positions outside the metadata and with a negative
  similarity, the second all negative, the third all positive), the dictionary built for
  a hit, and a generative model that always gives the same reply.
\<close>

definition second_record :: pydict where
  "second_record =
     [(''text'', PStr ''second chunk''), (''source'', PStr ''Course: a''),
      (''type'', PStr ''course_content''), (''chunk_id'', PInt 1), (''total_chunks'', PInt 2)]"

definition six_candidates :: "unit \<Rightarrow> nat \<Rightarrow> (real \<times> int) list option" where
  "six_candidates q n =
     Some (take n [(9/10, 7), (7/10, 0), (1/2, 1), (1/2, 0), (- (1/5), 1), (- 1, - 1)])"

definition hit :: "string \<Rightarrow> real \<Rightarrow> int \<Rightarrow> retrieved" where
  "hit t s c = \<lparr>content = PStr t, source = PStr ''Course: a'', rtype = PStr ''course_content'',
               similarity = s, chunk_id = PInt c\<rparr>"

definition negative_candidate :: "unit \<Rightarrow> nat \<Rightarrow> (real \<times> int) list option" where
  "negative_candidate q n = Some [(- (1/4), 1), (- (1/2), 0)]"

definition two_candidates :: "unit \<Rightarrow> nat \<Rightarrow> (real \<times> int) list option" where
  "two_candidates q n = Some [(1/2, 1), (1/4, 0)]"

definition fixed_generator :: "unit generator" where
  "fixed_generator g prompt = (Reply (Some ''See Source 1.''), g)"

section \<open>The chunker: termination, divergence and the windows it emits\<close>

lemma chunk_loop_stuck:
  assumes "chunk_loop words mw ov start chunks = Some r"
  shows "\<not> (mw - ov \<le> 0 \<and> start < int (length words))"
proof (rule chunk_loop.raw_induct[where P = "\<lambda>words mw ov start chunks r. \<not> (mw - ov \<le> 0 \<and> start < int (length words))", OF _ assms])
  fix f words mw ov start chunks r
  assume IH: "\<And>words mw ov start chunks r. f words mw ov start chunks = Some r \<Longrightarrow>
                \<not> (mw - ov \<le> 0 \<and> start < int (length words))"
    and body: "(if start < int (length words) then
        (let end = min (start + mw) (int (length words));
             chunk = py_join '' '' (py_slice words start end)
         in f words mw ov (start + (mw - ov)) (chunks @ [chunk]))
      else Some chunks) = Some r"
  show "\<not> (mw - ov \<le> 0 \<and> start < int (length words))"
  proof
    assume stuck: "mw - ov \<le> 0 \<and> start < int (length words)"
    let ?c = "chunks @ [py_join '' '' (py_slice words start (min (start + mw) (int (length words))))]"
    from body stuck have a: "f words mw ov (start + (mw - ov)) ?c = Some r"
      by (simp add: Let_def)
    from IH[OF a] stuck show False by simp
  qed
qed

lemma chunk_loop_diverges:
  "mw - ov \<le> 0 \<Longrightarrow> start < int (length words) \<Longrightarrow> chunk_loop words mw ov start chunks = None"
  using chunk_loop_stuck[of words mw ov start chunks] by (cases "chunk_loop words mw ov start chunks") auto

lemma chunk_loop_done:
  "\<not> start < int (length words) \<Longrightarrow> chunk_loop words mw ov start chunks = Some chunks"
  by (subst chunk_loop.simps) simp

lemma py_slice_window:
  assumes "0 \<le> start" "start < int (length words)" "0 < mw"
  shows "py_slice words start (min (start + mw) (int (length words))) = take (nat mw) (drop (nat start) words)"
proof (cases "start + mw \<le> int (length words)")
  case True
  with assms show ?thesis by (simp add: py_slice_def Let_def min_def)
next
  case False
  with assms have "py_slice words start (min (start + mw) (int (length words))) = drop (nat start) words"
    by (simp add: py_slice_def Let_def min_def)
  moreover from False assms have "take (nat mw) (drop (nat start) words) = drop (nat start) words"
    by simp
  ultimately show ?thesis by simp
qed

lemma window_count_iff:
  assumes "0 < (s::nat)"
  shows "k < (n + s - 1) div s \<longleftrightarrow> k * s < n"
proof -
  have "k < (n + s - 1) div s \<longleftrightarrow> Suc k \<le> (n + s - 1) div s" by auto
  also have "\<dots> \<longleftrightarrow> Suc k * s \<le> n + s - 1"
    using assms by (simp add: less_eq_div_iff_mult_less_eq)
  also have "\<dots> \<longleftrightarrow> k * s < n" using assms by auto
  finally show ?thesis .
qed

lemma chunk_loop_closed:
  assumes "0 < s" "mw - ov = int s" "0 < mw"
  shows "chunk_loop words mw ov (int (k * s)) acc =
         Some (acc @ map (spec_window words (nat mw) s) [k ..< (length words + s - 1) div s])"
proof (induction "(length words + s - 1) div s - k" arbitrary: k acc)
  case 0
  then have "\<not> k < (length words + s - 1) div s" by simp
  then have "\<not> k * s < length words" using window_count_iff[OF assms(1)] by simp
  then have "\<not> int (k * s) < int (length words)" by (simp del: of_nat_mult)
  from chunk_loop_done[OF this] 0 show ?case by simp
next
  case (Suc d)
  then have lt: "k < (length words + s - 1) div s" by simp
  then have ks: "k * s < length words" using window_count_iff[OF assms(1)] by simp
  have d: "d = (length words + s - 1) div s - Suc k" using Suc(2) by simp
  have step: "int (k * s) + (mw - ov) = int (Suc k * s)" using assms(2) by (simp add: algebra_simps)
  have "chunk_loop words mw ov (int (k * s)) acc =
        chunk_loop words mw ov (int (Suc k * s)) (acc @ [spec_window words (nat mw) s k])"
  proof -
    from ks have lt': "int (k * s) < int (length words)" by (simp del: of_nat_mult)
    have sl: "py_slice words (int (k * s)) (min (int (k * s) + mw) (int (length words)))
              = take (nat mw) (drop (k * s) words)"
      using py_slice_window[of "int (k * s)" words mw] lt' assms(3) by (simp del: of_nat_mult)
    show ?thesis
      by (subst chunk_loop.simps) (simp only: lt' if_True Let_def sl step spec_window_def)
  qed
  also have "\<dots> = Some ((acc @ [spec_window words (nat mw) s k]) @
        map (spec_window words (nat mw) s) [Suc k ..< (length words + s - 1) div s])"
    by (rule Suc(1)[OF d])
  also have "\<dots> = Some (acc @ map (spec_window words (nat mw) s) [k ..< (length words + s - 1) div s])"
    using lt by (simp add: upt_conv_Cons)
  finally show ?case .
qed

lemma chunk_by_words_spec:
  assumes "overlap < max_words" "0 \<le> overlap"
  shows "chunk_by_words text max_words overlap =
         Some (spec_chunks (py_split text) (nat max_words) (nat (max_words - overlap)))"
  using chunk_loop_closed[of "nat (max_words - overlap)" max_words overlap "py_split text" 0 "[]"] assms
  by (simp add: chunk_by_words_def spec_chunks_def)

lemma chunk_by_words_stuck:
  assumes "max_words - overlap \<le> 0"
  shows "chunk_by_words text max_words overlap = (if py_split text = [] then Some [] else None)"
  using assms by (simp add: chunk_by_words_def chunk_loop_done chunk_loop_diverges)

lemma split_ws_words: "split_ws [] (concat (replicate n ''w '')) = replicate n ''w''"
  by (induction n) (simp_all add: is_space_def)


lemma append_chunks_eq:
  "append_chunks mk xs (bt, bm) = (bt @ map snd xs, bm @ map (\<lambda>x. mk (fst x)) xs)"
  by (induction xs arbitrary: bt bm) auto

lemma spec_chunks_no_words: "spec_chunks [] window step = []"
  by (cases step) (simp_all add: spec_chunks_def)

lemma spec_chunks_nonempty:
  assumes "words \<noteq> []" "0 < step"
  shows "spec_chunks words window step \<noteq> []"
proof -
  from assms have "0 * step < length words" by simp
  then have "0 < (length words + step - 1) div step"
    using window_count_iff[OF assms(2), of 0 "length words"] by simp
  then show ?thesis by (simp add: spec_chunks_def)
qed

lemma spec_chunks_3000:
  assumes "length words = 3000"
  shows "spec_chunks words 2000 1800 = [py_join '' '' (take 2000 words), py_join '' '' (drop 1800 words)]"
proof -
  have n: "(length words + 1800 - 1) div 1800 = (2::nat)" using assms by simp
  have u: "[0..<2] = [0, Suc 0]" by (simp add: upt_conv_Cons)
  show ?thesis unfolding spec_chunks_def n u using assms by (simp add: spec_window_def)
qed

lemma chunk_by_words_3000:
  assumes "length (py_split text) = 3000"
  shows "chunk_by_words text CHUNK_SIZE CHUNK_OVERLAP =
         Some [py_join '' '' (take 2000 (py_split text)), py_join '' '' (drop 1800 (py_split text))]"
  using chunk_by_words_spec[of 200 2000 "text"] spec_chunks_3000[OF assms]
  by (simp add: CHUNK_SIZE_def CHUNK_OVERLAP_def)

lemma ingest_markdown_3000:
  assumes "length (py_split text) = 3000" "ends_with ''.md'' fname"
  shows "ingest_markdown_files (Some [(fname, text)]) =
     Some ([py_join '' '' (take 2000 (py_split text)), py_join '' '' (drop 1800 (py_split text))],
           [[(''source'', PStr (''Course: '' @ remove_md fname)), (''type'', PStr ''course_content''),
             (''chunk_id'', PInt 0), (''total_chunks'', PInt 2)],
            [(''source'', PStr (''Course: '' @ remove_md fname)), (''type'', PStr ''course_content''),
             (''chunk_id'', PInt 1), (''total_chunks'', PInt 2)]])"
  using assms(2)
  by (simp add: ingest_markdown_files_def chunk_by_words_3000[OF assms(1)] append_chunks_eq
      markdown_meta_def)

lemma remove_md_notes: "remove_md ''notes.md'' = ''notes''"
  by (simp add: remove_md.simps[of "''notes.md''"] remove_md.simps[of "''otes.md''"]
       remove_md.simps[of "''tes.md''"]  remove_md.simps[of "''es.md''"]  remove_md.simps[of "''s.md''"]
       remove_md.simps[of "''.md''"]  remove_md.simps[of "[]"])

text \<open>
  The claim C5 as the specification states it fails: with \<open>window_words - overlap_words = 0\<close>
  and a text of one word, \<open>chunk_by_words\<close> signals no error and never returns (on a real
  machine the list of chunks grows until memory is exhausted); on a text without words the
  same parameters are accepted and the empty list is returned.
\<close>

theorem chunk_by_words_rejects_counterexample:
  "(1::int) - 1 \<le> 0 \<and> chunk_by_words ''a'' 1 1 = None \<and> chunk_by_words '''' 1 1 = Some []"
  by (simp add: chunk_by_words_stuck py_split_def is_space_def)

text \<open>
  C5 (amended): \<open>chunk_by_words\<close> does not validate its parameters. If
  \<open>max_words - overlap \<le> 0\<close>, it returns the empty list for a text that has no words and
  never returns for a text that has at least one word; it raises no error in either case.
\<close>

theorem chunk_by_words_no_validation:
  "max_words - overlap \<le> 0 \<Longrightarrow>
   chunk_by_words text max_words overlap = (if py_split text = [] then Some [] else None)"
  by (rule chunk_by_words_stuck)

theorem chunk_by_words_no_validation_witness:
  "(200::int) - 2000 \<le> 0 \<and> chunk_by_words ''two words'' 200 2000 = None \<and>
   chunk_by_words ''  '' 200 2000 = Some []"
  using chunk_by_words_no_validation[of 200 2000 "''two words''"]
    chunk_by_words_no_validation[of 200 2000 "''  ''"]
  by (simp add: py_split_def is_space_def)

text \<open>
  The claim C6 as the specification states it fails in one place: a text that is not empty
  but holds only whitespace has no words, and the chunker returns no chunk for it.
\<close>

theorem chunk_by_words_nonempty_counterexample:
  "'' '' \<noteq> '''' \<and> (200::int) < 2000 \<and> (0::int) \<le> 200 \<and> chunk_by_words '' '' 2000 200 = Some []"
  using chunk_by_words_spec[of 200 2000 "'' ''"]
  by (simp add: py_split_def is_space_def spec_chunks_no_words)

text \<open>
  C6 (amended): for every text and parameters with \<open>max_words > overlap \<ge> 0\<close>,
  \<open>chunk_by_words\<close> returns, and what it returns are the successive word windows
  \<open>[start, start + max_words)\<close> joined by single spaces, \<open>start\<close> advancing by
  \<open>max_words - overlap\<close> and stopping once it reaches the word count (the last window
  possibly shorter). A text without words (empty or whitespace only) yields the empty
  sequence, a text with at least one word yields at least one chunk. A document of 3000
  words ingested with the window 2000 and the overlap 200 of the source yields exactly two
  chunks, with \<open>chunk_id\<close> 0 and 1 and \<open>total_chunks\<close> 2, the second starting at word 1800.
\<close>

theorem chunk_by_words_windows:
  "(overlap < max_words \<and> 0 \<le> overlap \<longrightarrow>
      chunk_by_words text max_words overlap =
        Some (spec_chunks (py_split text) (nat max_words) (nat (max_words - overlap))) \<and>
      (py_split text = [] \<longrightarrow> chunk_by_words text max_words overlap = Some []) \<and>
      (py_split text \<noteq> [] \<longrightarrow> (\<exists>c cs. chunk_by_words text max_words overlap = Some (c # cs)))) \<and>
   (length (py_split doc) = 3000 \<and> ends_with ''.md'' fname \<longrightarrow>
      ingest_markdown_files (Some [(fname, doc)]) =
        Some ([py_join '' '' (take 2000 (py_split doc)), py_join '' '' (drop 1800 (py_split doc))],
              [[(''source'', PStr (''Course: '' @ remove_md fname)), (''type'', PStr ''course_content''),
                (''chunk_id'', PInt 0), (''total_chunks'', PInt 2)],
               [(''source'', PStr (''Course: '' @ remove_md fname)), (''type'', PStr ''course_content''),
                (''chunk_id'', PInt 1), (''total_chunks'', PInt 2)]]))"
proof (intro conjI impI)
  assume a: "overlap < max_words \<and> 0 \<le> overlap"
  then show eq: "chunk_by_words text max_words overlap =
        Some (spec_chunks (py_split text) (nat max_words) (nat (max_words - overlap)))"
    by (simp add: chunk_by_words_spec)
  { assume "py_split text = []"
    then show "chunk_by_words text max_words overlap = Some []"
      using eq by (simp add: spec_chunks_no_words) }
  { assume "py_split text \<noteq> []"
    then have "spec_chunks (py_split text) (nat max_words) (nat (max_words - overlap)) \<noteq> []"
      using a by (intro spec_chunks_nonempty) auto
    then show "\<exists>c cs. chunk_by_words text max_words overlap = Some (c # cs)"
      using eq by (auto simp: neq_Nil_conv) }
next
  assume "length (py_split doc) = 3000 \<and> ends_with ''.md'' fname"
  then show "ingest_markdown_files (Some [(fname, doc)]) =
        Some ([py_join '' '' (take 2000 (py_split doc)), py_join '' '' (drop 1800 (py_split doc))],
              [[(''source'', PStr (''Course: '' @ remove_md fname)), (''type'', PStr ''course_content''),
                (''chunk_id'', PInt 0), (''total_chunks'', PInt 2)],
               [(''source'', PStr (''Course: '' @ remove_md fname)), (''type'', PStr ''course_content''),
                (''chunk_id'', PInt 1), (''total_chunks'', PInt 2)]])"
    by (simp add: ingest_markdown_3000)
qed

theorem chunk_by_words_windows_witness:
  "chunk_by_words ''a b  c d e'' 3 1 = Some [''a b c'', ''c d e'', ''e''] \<and>
   chunk_by_words '' '' 3 1 = Some [] \<and>
   ingest_markdown_files (Some [(''notes.md'', concat (replicate 3000 ''w ''))]) =
     Some ([py_join '' '' (replicate 2000 ''w''), py_join '' '' (replicate 1200 ''w'')],
           [[(''source'', PStr ''Course: notes''), (''type'', PStr ''course_content''),
             (''chunk_id'', PInt 0), (''total_chunks'', PInt 2)],
            [(''source'', PStr ''Course: notes''), (''type'', PStr ''course_content''),
             (''chunk_id'', PInt 1), (''total_chunks'', PInt 2)]])"
proof -
  have w: "py_split ''a b  c d e'' = [''a'', ''b'', ''c'', ''d'', ''e'']"
    by (simp add: py_split_def is_space_def)
  have u: "[0..<3] = [0, 1, 2]" by (simp add: upt_conv_Cons)
  have s: "spec_chunks [''a'', ''b'', ''c'', ''d'', ''e''] 3 2 = [''a b c'', ''c d e'', ''e'']"
    by (simp add: spec_chunks_def spec_window_def u)
  have e: "py_split '' '' = []" by (simp add: py_split_def is_space_def)
  have d: "py_split (concat (replicate 3000 ''w '')) = replicate 3000 ''w''"
    by (simp add: py_split_def split_ws_words)
  have m: "ends_with ''.md'' ''notes.md''" by (simp add: ends_with_def)
  show ?thesis
    using chunk_by_words_windows[of 1 3 "''a b  c d e''" "concat (replicate 3000 ''w '')" "''notes.md''"]
      chunk_by_words_windows[of 1 3 "'' ''" "concat (replicate 3000 ''w '')" "''notes.md''"]
    by (simp add: w s e d m remove_md_notes spec_chunks_no_words)
qed

section \<open>The embedding client: retries, the oversized-input fallback and termination\<close>

lemma safe_embed_ok:
  "embed_text P w text = (Inr v, w1) \<Longrightarrow> safe_embed P w text rc = (Inr v, w1)"
  by (subst safe_embed.simps) simp

lemma safe_embed_retry:
  "embed_text P w text = (Inl e, w1) \<Longrightarrow> err_is_rate_limit e \<Longrightarrow> rc < 3 \<Longrightarrow>
   safe_embed P w text rc = safe_embed P (w1\<lparr>waits := waits w1 @ [10 * (rc + 1)]\<rparr>) text (rc + 1)"
  by (subst safe_embed.simps) (simp add: Let_def)

lemma safe_embed_exhausted:
  "embed_text P w text = (Inl e, w1) \<Longrightarrow> err_is_rate_limit e \<Longrightarrow> \<not> rc < 3 \<Longrightarrow>
   safe_embed P w text rc = (Inl e, w1)"
  by (subst safe_embed.simps) simp

lemma safe_embed_split:
  "embed_text P w text = (Inl e, w1) \<Longrightarrow> \<not> err_is_rate_limit e \<Longrightarrow> length text > 10000 \<Longrightarrow>
   safe_embed P w text rc =
     (case safe_embed P w1 (take (length text div 2) text) 0 of
        (Inl e1, w2) \<Rightarrow> (Inl e1, w2)
      | (Inr left, w2) \<Rightarrow>
          (case safe_embed P w2 (drop (length text div 2) text) 0 of
             (Inl e2, w3) \<Rightarrow> (Inl e2, w3)
           | (Inr right, w3) \<Rightarrow> (np_average left right, w3)))"
  by (subst safe_embed.simps) (simp add: Let_def)

lemma safe_embed_other:
  "embed_text P w text = (Inl e, w1) \<Longrightarrow> \<not> err_is_rate_limit e \<Longrightarrow> \<not> length text > 10000 \<Longrightarrow>
   safe_embed P w text rc = (Inl e, w1)"
  by (subst safe_embed.simps) simp


lemma safe_embed_rate_limited_run:
  assumes "rate_limited_run P (prov w) text k = Some s'" "rc + int k \<le> 3"
  shows "safe_embed P w text rc =
         safe_embed P (w\<lparr>prov := s', waits := waits w @ map (\<lambda>i. 10 * (rc + int i + 1)) [0 ..< k],
                          sent := sent w @ replicate k text\<rparr>) text (rc + int k)"
  using assms
proof (induction k arbitrary: w rc)
  case 0
  then have "s' = prov w" by simp
  then show ?case by simp
next
  case (Suc k)
  from Suc.prems(1) obtain msg s1 where p: "P (prov w) text = (Inl msg, s1)"
    and r: "is_rate_limit msg" and run: "rate_limited_run P s1 text k = Some s'"
    by (auto split: prod.splits sum.splits if_splits)
  let ?w1 = "w\<lparr>prov := s1, sent := sent w @ [text]\<rparr>"
  let ?w2 = "?w1\<lparr>waits := waits ?w1 @ [10 * (rc + 1)]\<rparr>"
  have e: "embed_text P w text = (Inl (ProviderError msg), ?w1)"
    using p by (simp add: embed_text_def)
  have "safe_embed P w text rc = safe_embed P ?w2 text (rc + 1)"
    using safe_embed_retry[OF e] r Suc.prems(2) by simp
  also have "\<dots> = safe_embed P (?w2\<lparr>prov := s',
        waits := waits ?w2 @ map (\<lambda>i. 10 * ((rc + 1) + int i + 1)) [0 ..< k],
        sent := sent ?w2 @ replicate k text\<rparr>) text ((rc + 1) + int k)"
    using Suc.IH[of ?w2 "rc + 1"] run Suc.prems(2) by simp
  also have "map (\<lambda>i. 10 * ((rc + 1) + int i + 1)) [0 ..< k] = map (\<lambda>i. 10 * (rc + int i + 1)) [Suc 0 ..< Suc k]"
    by (simp only: map_Suc_upt[symmetric] map_map o_def) (simp add: algebra_simps)
  finally show ?case
    by (simp add: upt_conv_Cons replicate_append_same add.assoc del: upt_Suc)
qed


lemma backoff_3: "backoff 3 = [10, 20, 30]"
  by (simp add: backoff_def upt_conv_Cons)

lemma safe_embed_after_rate_limits:
  assumes "rate_limited_run P (prov w) text k = Some s'" and "P s' text = (r, s'')"
  shows "(k \<le> 3 \<and> r = Inr raw \<longrightarrow>
            safe_embed P w text 0 =
              (Inr (normalize raw),
               w\<lparr>prov := s'', waits := waits w @ backoff k, sent := sent w @ replicate (Suc k) text\<rparr>)) \<and>
         (k = 3 \<and> r = Inl msg \<and> is_rate_limit msg \<longrightarrow>
            safe_embed P w text 0 =
              (Inl (ProviderError msg),
               w\<lparr>prov := s'', waits := waits w @ [10, 20, 30], sent := sent w @ replicate 4 text\<rparr>))"
proof (intro conjI impI)
  let ?w = "w\<lparr>prov := s', waits := waits w @ backoff k, sent := sent w @ replicate k text\<rparr>"
  { assume a: "k \<le> 3 \<and> r = Inr raw"
    then have run: "safe_embed P w text 0 = safe_embed P ?w text (int k)"
      using safe_embed_rate_limited_run[OF assms(1), of 0] by (simp add: backoff_def)
    have "embed_text P ?w text = (Inr (normalize raw), ?w\<lparr>prov := s'', sent := sent ?w @ [text]\<rparr>)"
      using assms(2) a by (simp add: embed_text_def)
    from safe_embed_ok[OF this] run
    show "safe_embed P w text 0 =
              (Inr (normalize raw),
               w\<lparr>prov := s'', waits := waits w @ backoff k, sent := sent w @ replicate (Suc k) text\<rparr>)"
      by (simp add: replicate_append_same) }
  { assume a: "k = 3 \<and> r = Inl msg \<and> is_rate_limit msg"
    then have run: "safe_embed P w text 0 = safe_embed P ?w text 3"
      using safe_embed_rate_limited_run[OF assms(1), of 0] by (simp add: backoff_def)
    have "embed_text P ?w text = (Inl (ProviderError msg), ?w\<lparr>prov := s'', sent := sent ?w @ [text]\<rparr>)"
      using assms(2) a by (simp add: embed_text_def)
    from safe_embed_exhausted[OF this, of 3] run a
    have "safe_embed P w text 0 =
       (Inl (ProviderError msg), ?w\<lparr>prov := s'', sent := sent ?w @ [text]\<rparr>)" by simp
    moreover have "replicate 4 text = text # replicate 3 text" by (simp add: eval_nat_numeral)
    ultimately show "safe_embed P w text 0 =
              (Inl (ProviderError msg),
               w\<lparr>prov := s'', waits := waits w @ [10, 20, 30], sent := sent w @ replicate 4 text\<rparr>)"
      using a by (simp add: backoff_3 replicate_append_same) }
qed

lemma is_rate_limit_429: "is_rate_limit ''429 Rate limit exceeded''"
  by (simp add: is_rate_limit_def py_lower_def lower_char_def)

lemma not_rate_limit_400: "\<not> is_rate_limit ''400 payload too large''"
  by (simp add: is_rate_limit_def py_lower_def lower_char_def)

lemma normalize_unit_vec: "normalize (1 # 0 # replicate 766 0) = unit_vec"
  by (simp add: normalize_def l2_norm_def unit_vec_def sum_list_replicate Let_def)

lemma normalize_unit_vec2: "normalize (0 # 1 # replicate 766 0) = unit_vec2"
  by (simp add: normalize_def l2_norm_def unit_vec2_def sum_list_replicate Let_def)

lemma run3: "rate_limited_run (rate_limited_then_ok 3) 0 ''hello'' 3 = Some 3"
  by (simp add: eval_nat_numeral rate_limited_then_ok_def is_rate_limit_429)

lemma three_failures_then_ok:
  "rate_limited_run (rate_limited_then_ok 3) 0 ''hello'' 3 = Some 3 \<and>
   fst (rate_limited_then_ok 3 3 ''hello'') = Inr (1 # 0 # replicate 766 0) \<and>
   safe_embed (rate_limited_then_ok 3) (module_init 0) ''hello'' 0 =
     (Inr unit_vec,
      \<lparr>prov = 4, waits = [10, 20, 30], sent = replicate 4 ''hello'', index = [], metadata = []\<rparr>)"
proof -
  have p: "rate_limited_then_ok 3 3 ''hello'' = (Inr (1 # 0 # replicate 766 0), 4)"
    by (simp add: rate_limited_then_ok_def)
  have r: "rate_limited_run (rate_limited_then_ok 3) (prov (module_init 0)) ''hello'' 3 = Some 3"
    using run3 by (simp add: module_init_def)
  show ?thesis
    using safe_embed_after_rate_limits[OF r p, of "1 # 0 # replicate 766 0"] run3 p
    by (simp add: module_init_def backoff_3 normalize_unit_vec)
qed


lemma embed_text_sent: "embed_text P w text = (x, w1) \<Longrightarrow> sent w1 = sent w @ [text]"
  by (auto simp: embed_text_def Let_def split: prod.splits sum.splits)

lemma safe_embed_calls_bound:
  "length (sent (snd (safe_embed P w text rc))) \<le>
     length (sent w) + nat (max 1 (4 - rc)) + (if 10000 < length text then length text - 8 else 0)"
proof (induction P w "text" rc rule: safe_embed.induct)
  case (1 P w t rc)
  obtain x w1 where e: "embed_text P w t = (x, w1)" by force
  have s1: "length (sent w1) = length (sent w) + 1"
    using embed_text_sent[OF e] by simp
  show ?case
  proof (cases x)
    case (Inr v)
    with e have "safe_embed P w t rc = (Inr v, w1)" by (simp add: safe_embed_ok)
    then show ?thesis using s1 by simp
  next
    case (Inl a)
    note e' = e[unfolded Inl]
    consider (retry) "err_is_rate_limit a" "rc < 3"
      | (exhausted) "err_is_rate_limit a" "\<not> rc < 3"
      | (split) "\<not> err_is_rate_limit a" "10000 < length t"
      | (other) "\<not> err_is_rate_limit a" "\<not> 10000 < length t"
      by blast
    then show ?thesis
    proof cases
      case retry
      let ?w = "w1\<lparr>waits := waits w1 @ [10 * (rc + 1)]\<rparr>"
      have "length (sent (snd (safe_embed P ?w t (rc + 1)))) \<le>
            length (sent ?w) + nat (max 1 (4 - (rc + 1))) + (if 10000 < length t then length t - 8 else 0)"
        using "1.IH"(1)[OF e[symmetric] Inl retry refl] .
      moreover have "safe_embed P w t rc = safe_embed P ?w t (rc + 1)"
        using safe_embed_retry[OF e' retry] .
      ultimately show ?thesis using s1 retry(2) by (simp split: if_splits)
    next
      case exhausted
      then have "safe_embed P w t rc = (Inl a, w1)" using safe_embed_exhausted[OF e'] by simp
      then show ?thesis using s1 by simp
    next
      case other
      then have "safe_embed P w t rc = (Inl a, w1)" using safe_embed_other[OF e'] by simp
      then show ?thesis using s1 by simp
    next
      case split
      let ?mid = "length t div 2"
      let ?l = "take ?mid t" and ?r = "drop ?mid t"
      have la: "length ?l = ?mid" and lb: "length ?r = length t - ?mid" by simp_all
      have big: "5000 \<le> ?mid" "5000 \<le> length t - ?mid" using split(2) by simp_all
      obtain xl w2 where L: "safe_embed P w1 ?l 0 = (xl, w2)" by force
      have bl: "length (sent w2) \<le> length (sent w1) + 4 + (if 10000 < length ?l then length ?l - 8 else 0)"
        using "1.IH"(2)[OF e[symmetric] Inl split refl] L by simp
      then have bl': "length (sent w2) + 4 \<le> length (sent w1) + ?mid"
        using big la by (simp split: if_splits)
      have unf: "safe_embed P w t rc =
         (case (xl, w2) of
            (Inl e1, w2) \<Rightarrow> (Inl e1, w2)
          | (Inr left, w2) \<Rightarrow>
              (case safe_embed P w2 ?r 0 of
                 (Inl e2, w3) \<Rightarrow> (Inl e2, w3)
               | (Inr right, w3) \<Rightarrow> (np_average left right, w3)))"
        using safe_embed_split[OF e' split] L by simp
      show ?thesis
      proof (cases xl)
        case (Inl e1)
        with unf have "safe_embed P w t rc = (Inl e1, w2)" by simp
        then show ?thesis using bl' s1 big split(2) by simp
      next
        case (Inr left)
        obtain xr w3 where R: "safe_embed P w2 ?r 0 = (xr, w3)" by force
        have br: "length (sent w3) \<le> length (sent w2) + 4 + (if 10000 < length ?r then length ?r - 8 else 0)"
          using "1.IH"(3)[OF e[symmetric] Inl split refl L[symmetric] Inr] R by simp
        then have br': "length (sent w3) + 4 \<le> length (sent w2) + (length t - ?mid)"
          using big lb by (simp split: if_splits)
        from unf Inr R have "snd (safe_embed P w t rc) = w3"
          by (cases xr) simp_all
        then show ?thesis using bl' br' s1 big split(2) by simp
      qed
    qed
  qed
qed

lemma fallback_average:
  "safe_embed too_long_provider (module_init ()) long_text 0 =
     (Inr half_vec,
      \<lparr>prov = (), waits = [], sent = [long_text, replicate 6000 CHR ''a'', replicate 6000 CHR ''b''],
       index = [], metadata = []\<rparr>)"
proof -
  let ?w0 = "module_init ()"
  let ?w1 = "?w0\<lparr>sent := [long_text]\<rparr>"
  let ?w2 = "?w0\<lparr>sent := [long_text, replicate 6000 CHR ''a'']\<rparr>"
  let ?w3 = "?w0\<lparr>sent := [long_text, replicate 6000 CHR ''a'', replicate 6000 CHR ''b'']\<rparr>"
  have len: "length long_text = 12000" by (simp add: long_text_def)
  have e0: "embed_text too_long_provider ?w0 long_text = (Inl (ProviderError ''400 payload too large''), ?w1)"
    by (simp add: embed_text_def too_long_provider_def len module_init_def)
  have el: "embed_text too_long_provider ?w1 (replicate 6000 CHR ''a'') = (Inr unit_vec, ?w2)"
    by (simp add: embed_text_def too_long_provider_def module_init_def normalize_unit_vec)
  have er: "embed_text too_long_provider ?w2 (replicate 6000 CHR ''b'') = (Inr unit_vec2, ?w3)"
    by (simp add: embed_text_def too_long_provider_def module_init_def normalize_unit_vec2)
  have tk: "take (length long_text div 2) long_text = replicate 6000 CHR ''a''"
    and dr: "drop (length long_text div 2) long_text = replicate 6000 CHR ''b''"
    by (simp_all add: len) (simp_all add: long_text_def)
  have avg: "np_average unit_vec unit_vec2 = Inr half_vec"
    by (simp add: np_average_def np_add_def unit_vec_def unit_vec2_def half_vec_def)
  show ?thesis
    using safe_embed_split[OF e0, of 0, unfolded tk dr] safe_embed_ok[OF el, of 0] safe_embed_ok[OF er, of 0]
    by (simp add: not_rate_limit_400 len avg module_init_def)
qed


lemma rate_limited_then_ok_run:
  "n + k \<le> m \<Longrightarrow> rate_limited_run (rate_limited_then_ok m) n text k = Some (n + k)"
  by (induction k arbitrary: n) (simp_all add: rate_limited_then_ok_def is_rate_limit_429)

lemma normalize_unit:
  assumes "l2_norm raw \<noteq> 0"
  shows "vec_norm (normalize raw) = Some 1"
proof -
  let ?n = "l2_norm raw"
  have pos: "0 \<le> (\<Sum>x\<leftarrow>raw. x\<^sup>2)" by (rule sum_list_nonneg) auto
  have "(\<Sum>x\<leftarrow>raw. (x / ?n)\<^sup>2) = (\<Sum>x\<leftarrow>raw. x\<^sup>2 * (1 / ?n\<^sup>2))"
    by (simp add: power_divide)
  also have "\<dots> = (\<Sum>x\<leftarrow>raw. x\<^sup>2) * (1 / ?n\<^sup>2)"
    by (rule sum_list_mult_const)
  also have "?n\<^sup>2 = (\<Sum>x\<leftarrow>raw. x\<^sup>2)"
    using pos by (simp add: l2_norm_def)
  finally have "(\<Sum>x\<leftarrow>raw. (x / ?n)\<^sup>2) = 1"
    using assms pos by (simp add: l2_norm_def)
  then show ?thesis
    using assms by (simp add: vec_norm_def normalize_def Let_def l2_norm_def o_def image_iff)
qed

text \<open>
  The claim C2 as the specification states it fails: the counter \<open>retry_count\<close> counts
  retries, not attempts. After three rate-limit failures in a row the function has slept
  10, 20 and 30 seconds and makes a fourth attempt; when that attempt succeeds, so does
  \<open>safe_embed\<close>.
\<close>

theorem safe_embed_three_failures_counterexample:
  "rate_limited_run (rate_limited_then_ok 3) 0 ''hello'' 3 = Some 3 \<and>
   fst (rate_limited_then_ok 3 3 ''hello'') = Inr (1 # 0 # replicate 766 0) \<and>
   safe_embed (rate_limited_then_ok 3) (module_init 0) ''hello'' 0 =
     (Inr unit_vec,
      \<lparr>prov = 4, waits = [10, 20, 30], sent = replicate 4 ''hello'', index = [], metadata = []\<rparr>)"
  by (rule three_failures_then_ok)

text \<open>
  C2 (amended): for every input text, if the provider signals a rate-limit or quota failure
  on \<open>k \<le> 3\<close> consecutive attempts and succeeds on the next one, \<open>safe_embed\<close> returns that
  success (so two failures followed by a success succeed, and so do three); if it signals
  such a failure on four consecutive attempts, \<open>safe_embed\<close> fails, and the failure that
  leaves it is the fourth one. The waits between the attempts grow linearly: 10, 20 and 30
  seconds, and there is no wait after the last attempt.
\<close>

theorem safe_embed_retry_cap:
  assumes "rate_limited_run P (prov w) text k = Some s'" and "P s' text = (r, s'')"
  shows "(k \<le> 3 \<and> r = Inr raw \<longrightarrow>
            safe_embed P w text 0 =
              (Inr (normalize raw),
               w\<lparr>prov := s'', waits := waits w @ backoff k, sent := sent w @ replicate (Suc k) text\<rparr>)) \<and>
         (k = 3 \<and> r = Inl msg \<and> is_rate_limit msg \<longrightarrow>
            safe_embed P w text 0 =
              (Inl (ProviderError msg),
               w\<lparr>prov := s'', waits := waits w @ [10, 20, 30], sent := sent w @ replicate 4 text\<rparr>))"
  using assms by (rule safe_embed_after_rate_limits)

theorem safe_embed_retry_cap_witness:
  "safe_embed (rate_limited_then_ok 2) (module_init 0) ''hello'' 0 =
     (Inr unit_vec,
      \<lparr>prov = 3, waits = [10, 20], sent = replicate 3 ''hello'', index = [], metadata = []\<rparr>) \<and>
   safe_embed (rate_limited_then_ok 4) (module_init 0) ''hello'' 0 =
     (Inl (ProviderError ''429 Rate limit exceeded''),
      \<lparr>prov = 4, waits = [10, 20, 30], sent = replicate 4 ''hello'', index = [], metadata = []\<rparr>)"
proof -
  have r2: "rate_limited_run (rate_limited_then_ok 2) (prov (module_init 0)) ''hello'' 2 = Some 2"
    using rate_limited_then_ok_run[of 0 2 2 "''hello''"] by (simp add: module_init_def)
  have p2: "rate_limited_then_ok 2 2 ''hello'' = (Inr (1 # 0 # replicate 766 0), 3)"
    by (simp add: rate_limited_then_ok_def)
  have r4: "rate_limited_run (rate_limited_then_ok 4) (prov (module_init 0)) ''hello'' 3 = Some 3"
    using rate_limited_then_ok_run[of 0 3 4 "''hello''"] by (simp add: module_init_def)
  have p4: "rate_limited_then_ok 4 3 ''hello'' = (Inl ''429 Rate limit exceeded'', 4)"
    by (simp add: rate_limited_then_ok_def)
  have b2: "backoff 2 = [10, 20]" by (simp add: backoff_def upt_conv_Cons)
  show ?thesis
    using safe_embed_retry_cap[OF r2 p2, of "1 # 0 # replicate 766 0"]
      safe_embed_retry_cap[OF r4 p4, of _ "''429 Rate limit exceeded''"]
    by (simp add: module_init_def b2 normalize_unit_vec is_rate_limit_429)
qed

lemma safe_embed_total: "safe_embed_dom (P :: 's provider, w :: 's world, t, rc)"
proof -
  have "All (safe_embed_dom :: ('s provider \<times> 's world \<times> string \<times> int) \<Rightarrow> bool)"
    by (relation "measures [\<lambda>(P, w, t, rc). length t, \<lambda>(P, w, t, rc). nat (3 - rc)]") auto
  then show ?thesis by simp
qed

text \<open>
  C10: \<open>safe_embed\<close> terminates for every text, every retry count and every provider:
  every argument lies in the domain on which the recursion of the function is well
  founded, since a retry keeps the text and raises the retry count towards 3 and a split
  recurses on two strictly shorter texts. The work of a call is bounded as well: it calls
  the provider at most \<open>max 1 (4 - retry_count)\<close> times for a text of at most 10000
  characters, and at most that plus \<open>length text - 8\<close> times for a longer one.
\<close>

theorem safe_embed_terminates:
  "safe_embed_dom (P :: 's provider, w :: 's world, text, retry_count) \<and>
   length (sent (snd (safe_embed P w text retry_count))) \<le>
     length (sent w) + nat (max 1 (4 - retry_count)) +
     (if 10000 < length text then length text - 8 else 0)"
  using safe_embed_total safe_embed_calls_bound by blast

text \<open>
  C3, at a failing input: a text of 12000 characters that the provider rejects as a whole,
  with an error that is no rate limit, and whose halves it embeds as the unit vectors
  \<open>(1, 0, 0, \<dots>)\<close> and \<open>(0, 1, 0, \<dots>)\<close>. No second call is made on the full text and the
  two halves are embedded, as the claim says; but \<open>safe_embed\<close> returns their plain average
  \<open>(1/2, 1/2, 0, \<dots>)\<close>, which is not the average re-normalized to unit length.
\<close>

theorem safe_embed_fallback_not_renormalized:
  "length long_text = 12000 \<and>
   safe_embed too_long_provider (module_init ()) long_text 0 =
     (Inr half_vec,
      \<lparr>prov = (), waits = [], sent = [long_text, replicate 6000 CHR ''a'', replicate 6000 CHR ''b''],
       index = [], metadata = []\<rparr>) \<and>
   np_average unit_vec unit_vec2 = Inr half_vec \<and>
   normalize (1/2 # 1/2 # replicate 766 0) \<noteq> half_vec"
proof -
  have "l2_norm (1/2 # 1/2 # replicate 766 0) \<noteq> 1"
    by (simp add: l2_norm_def power2_eq_square sum_list_replicate)
  then have "normalize (1/2 # 1/2 # replicate 766 0) \<noteq> half_vec"
    by (auto simp: normalize_def Let_def half_vec_def)
  moreover have "np_average unit_vec unit_vec2 = Inr half_vec"
    by (simp add: np_average_def np_add_def unit_vec_def unit_vec2_def half_vec_def)
  ultimately show ?thesis
    using fallback_average by (simp add: long_text_def)
qed

text \<open>
  C4, at the same failing input: the vector that \<open>safe_embed\<close> returns on the
  oversized-input path has the L2 norm \<open>sqrt (1/2)\<close>, about 0.707, which is not 1 within any
  floating-point tolerance. (On the direct path the norm is 1 whenever the raw embedding
  is not the zero vector: lemma \<open>normalize_unit\<close>.)
\<close>

theorem safe_embed_fallback_norm:
  "fst (safe_embed too_long_provider (module_init ()) long_text 0) = Inr half_vec \<and>
   vec_norm half_vec = Some (sqrt (1/2)) \<and>
   sqrt (1/2) < 3/4"
proof -
  have "sqrt (1/2) < 3/4"
    by (rule real_less_lsqrt) (simp_all add: power2_eq_square)
  moreover have "vec_norm half_vec = Some (sqrt (1/2))"
    by (simp add: vec_norm_def half_vec_def l2_norm_def power2_eq_square sum_list_replicate)
  ultimately show ?thesis using fallback_average by simp
qed

section \<open>Ingestion: the index and the metadata stay aligned\<close>

lemma embed_text_stores:
  "embed_text P w text = (x, w1) \<Longrightarrow> index w1 = index w \<and> metadata w1 = metadata w"
  by (auto simp: embed_text_def Let_def split: prod.splits sum.splits)

lemma safe_embed_stores:
  "index (snd (safe_embed P w text rc)) = index w \<and>
   metadata (snd (safe_embed P w text rc)) = metadata w"
proof (induction P w "text" rc rule: safe_embed.induct)
  case (1 P w t rc)
  obtain x w1 where e: "embed_text P w t = (x, w1)" by force
  note s1 = embed_text_stores[OF e]
  show ?case
  proof (cases x)
    case (Inr v)
    with e have "safe_embed P w t rc = (Inr v, w1)" by (simp add: safe_embed_ok)
    then show ?thesis using s1 by simp
  next
    case (Inl a)
    note e' = e[unfolded Inl]
    consider (retry) "err_is_rate_limit a" "rc < 3"
      | (exhausted) "err_is_rate_limit a" "\<not> rc < 3"
      | (split) "\<not> err_is_rate_limit a" "10000 < length t"
      | (other) "\<not> err_is_rate_limit a" "\<not> 10000 < length t"
      by blast
    then show ?thesis
    proof cases
      case retry
      then show ?thesis
        using "1.IH"(1)[OF e[symmetric] Inl retry refl] safe_embed_retry[OF e' retry] s1 by simp
    next
      case exhausted
      then show ?thesis using safe_embed_exhausted[OF e'] s1 by simp
    next
      case other
      then show ?thesis using safe_embed_other[OF e'] s1 by simp
    next
      case split
      let ?mid = "length t div 2"
      obtain xl w2 where L: "safe_embed P w1 (take ?mid t) 0 = (xl, w2)" by force
      have l: "index w2 = index w1 \<and> metadata w2 = metadata w1"
        using "1.IH"(2)[OF e[symmetric] Inl split refl] L by simp
      show ?thesis
      proof (cases xl)
        case (Inl e1)
        then show ?thesis using safe_embed_split[OF e' split, of rc] L l s1 by simp
      next
        case (Inr left)
        obtain xr w3 where R: "safe_embed P w2 (drop ?mid t) 0 = (xr, w3)" by force
        have r: "index w3 = index w2 \<and> metadata w3 = metadata w2"
          using "1.IH"(3)[OF e[symmetric] Inl split refl L[symmetric] Inr] R by simp
        have "snd (safe_embed P w t rc) = w3"
          using safe_embed_split[OF e' split, of rc] L Inr R by (cases xr) simp_all
        then show ?thesis using l r s1 by simp
      qed
    qed
  qed
qed

lemma embed_loop_result:
  "embed_loop P w texts embs = (r, w') \<Longrightarrow>
   index w' = index w \<and> metadata w' = metadata w \<and>
   (\<forall>vs. r = Inr vs \<longrightarrow> length vs = length embs + length texts)"
proof (induction texts arbitrary: w embs)
  case Nil
  then show ?case by auto
next
  case (Cons t texts)
  obtain x w1 where s: "safe_embed P w t 0 = (x, w1)" by force
  have st: "index w1 = index w \<and> metadata w1 = metadata w"
    using safe_embed_stores[of P w t 0] s by simp
  show ?case
  proof (cases x)
    case (Inl e)
    with Cons.prems s st show ?thesis by auto
  next
    case (Inr emb)
    with Cons.prems s have "embed_loop P w1 texts (embs @ [emb]) = (r, w')" by simp
    from Cons.IH[OF this] st show ?thesis by auto
  qed
qed

lemma index_batch_committed:
  assumes "index_batch P w texts metas = (Inr (), w')"
  shows "\<exists>vs w1. embed_loop P w texts [] = (Inr vs, w1) \<and> length vs = length texts \<and>
           index w' = index w @ vs \<and>
           metadata w' = metadata w @ map2 dict_with_text texts metas"
proof -
  obtain x w1 where l: "embed_loop P w texts [] = (x, w1)" by force
  from embed_loop_result[OF l] have st: "index w1 = index w" "metadata w1 = metadata w"
    and len: "\<forall>vs. x = Inr vs \<longrightarrow> length vs = length texts" by auto
  from assms l obtain vs where x: "x = Inr vs"
    by (cases x) (auto simp: index_batch_def)
  from assms l x have "index_add (index w1) vs = Inr (index w1 @ vs)"
    and w': "w' = w1\<lparr>index := index w1 @ vs,
                     metadata := metadata w1 @ map (\<lambda>(t, m). dict_with_text t m) (zip texts metas)\<rparr>"
    by (auto simp: index_batch_def index_add_def split: if_splits)
  with st len x l show ?thesis by auto
qed

lemma index_batch_failed:
  assumes "index_batch P w texts metas = (Inl e, w')"
  shows "index w' = index w \<and> metadata w' = metadata w"
proof -
  obtain x w1 where l: "embed_loop P w texts [] = (x, w1)" by force
  from embed_loop_result[OF l] have st: "index w1 = index w" "metadata w1 = metadata w" by auto
  from assms l have "w' = w1"
    by (auto simp: index_batch_def split: sum.splits)
  with st show ?thesis by simp
qed

lemma index_batch_lockstep:
  assumes "index_batch P w texts metas = (r, w')" "length texts = length metas"
    "length (index w) = length (metadata w)"
  shows "length (index w') = length (metadata w')"
proof (cases r)
  case (Inl e)
  with index_batch_failed[of P w texts metas e w'] assms show ?thesis by simp
next
  case (Inr u)
  with index_batch_committed[of P w texts metas w'] assms show ?thesis by auto
qed

lemma batch_loop_lockstep:
  "batch_loop P w all_texts all_meta i = (r, w') \<Longrightarrow> length all_texts = length all_meta \<Longrightarrow>
   length (index w) = length (metadata w) \<Longrightarrow> length (index w') = length (metadata w')"
proof (induction P w all_texts all_meta i rule: batch_loop.induct)
  case (1 P w all_texts all_meta i)
  show ?case
  proof (cases "i < length all_texts")
    case False
    with "1.prems" show ?thesis by (simp add: batch_loop.simps)
  next
    case True
    let ?bt = "take BATCH_SIZE (drop i all_texts)" and ?bm = "take BATCH_SIZE (drop i all_meta)"
    obtain x w1 where b: "index_batch P w ?bt ?bm = (x, w1)" by force
    have eq: "length ?bt = length ?bm" using "1.prems"(2) by simp
    have inv: "length (index w1) = length (metadata w1)"
      using index_batch_lockstep[OF b eq "1.prems"(3)] .
    show ?thesis
    proof (cases x)
      case (Inl e)
      with b True "1.prems"(1) have "w' = w1"
        by (subst (asm) batch_loop.simps) (simp add: Let_def)
      with inv show ?thesis by simp
    next
      case (Inr u)
      with b True "1.prems"(1) have "batch_loop P w1 all_texts all_meta (i + BATCH_SIZE) = (r, w')"
        by (subst (asm) batch_loop.simps) (simp add: Let_def)
      from "1.IH"[OF True refl refl b[symmetric] Inr this "1.prems"(2) inv] show ?thesis .
    qed
  qed
qed

lemma md_files_loop_lengths:
  "md_files_loop files (bt, bm) = Some (ts, ms) \<Longrightarrow> length bt = length bm \<Longrightarrow> length ts = length ms"
proof (induction files arbitrary: bt bm)
  case Nil
  then show ?case by simp
next
  case (Cons f files)
  obtain fname t where f: "f = (fname, t)" by force
  from Cons.prems(1) f obtain chunks where
    "md_files_loop files (bt @ map snd (enumerate 0 chunks),
        bm @ map (\<lambda>x. markdown_meta fname (fst x) (length chunks)) (enumerate 0 chunks)) = Some (ts, ms)"
    by (auto simp: append_chunks_eq split: option.splits)
  from Cons.IH[OF this] Cons.prems(2) show ?case by simp
qed

lemma topics_loop_lengths:
  "topics_loop tps (bt, bm) = Some (ts, ms) \<Longrightarrow> length bt = length bm \<Longrightarrow> length ts = length ms"
proof (induction tps arbitrary: bt bm)
  case Nil
  then show ?case by simp
next
  case (Cons tp tps)
  obtain tid title posts where tp: "tp = (tid, title, posts)" by (cases tp) auto
  from Cons.prems(1) tp obtain chunks where
    "topics_loop tps (bt @ map snd (enumerate 0 chunks),
        bm @ map (\<lambda>x. discourse_meta tid title (fst x) (length chunks)) (enumerate 0 chunks)) = Some (ts, ms)"
    by (auto simp: append_chunks_eq Let_def split: option.splits)
  from Cons.IH[OF this] Cons.prems(2) show ?case by simp
qed

lemma ingest_lengths:
  "ingest_markdown_files d = Some (ts, ms) \<Longrightarrow> length ts = length ms"
  "ingest_discourse_json f = Some (ts', ms') \<Longrightarrow> length ts' = length ms'"
  by (auto simp: ingest_markdown_files_def ingest_discourse_json_def
      split: option.splits dest: md_files_loop_lengths topics_loop_lengths)

lemma main_lockstep:
  assumes "main P w markdown_dir discourse_file = Some (r, w')"
    "length (index w) = length (metadata w)"
  shows "length (index w') = length (metadata w') \<and>
         (\<forall>ix ms. r = Inr (Some (ix, ms)) \<longrightarrow> ix = index w' \<and> ms = metadata w')"
proof -
  from assms(1) obtain mt mm dt dm where
    m: "ingest_markdown_files markdown_dir = Some (mt, mm)"
    and d: "ingest_discourse_json discourse_file = Some (dt, dm)"
    by (auto simp: main_def split: option.splits)
  have eq: "length (mt @ dt) = length (mm @ dm)"
    using ingest_lengths(1)[OF m] ingest_lengths(2)[OF d] by simp
  show ?thesis
  proof (cases "mt @ dt = []")
    case True
    with assms m d show ?thesis by (auto simp: main_def)
  next
    case False
    obtain x w1 where b: "batch_loop P w (mt @ dt) (mm @ dm) 0 = (x, w1)" by force
    from batch_loop_lockstep[OF b eq assms(2)] have "length (index w1) = length (metadata w1)" .
    moreover from assms(1) m d False b have "w' = w1"
      and "\<forall>ix ms. r = Inr (Some (ix, ms)) \<longrightarrow> ix = index w1 \<and> ms = metadata w1"
      by (auto simp: main_def Let_def split: sum.splits)
    ultimately show ?thesis by simp
  qed
qed


lemma remove_md_a: "remove_md ''a.md'' = ''a''"
  by (simp add: remove_md.simps[of "''a.md''"] remove_md.simps[of "''.md''"] remove_md.simps[of "[]"])

lemma hello_meta: "markdown_meta ''a.md'' 0 (Suc 0) =
   [(''source'', PStr ''Course: a''), (''type'', PStr ''course_content''),
    (''chunk_id'', PInt 0), (''total_chunks'', PInt 1)]"
  by (simp add: markdown_meta_def remove_md_a)

lemma hello_ingest:
  "ingest_markdown_files (Some [(''a.md'', ''hello world'')]) =
     Some ([''hello world''], [markdown_meta ''a.md'' 0 (Suc 0)])"
proof -
  have w: "py_split ''hello world'' = [''hello'', ''world'']"
    by (simp add: py_split_def is_space_def)
  have "chunk_by_words ''hello world'' CHUNK_SIZE CHUNK_OVERLAP = Some [''hello world'']"
    using chunk_by_words_spec[of 200 2000 "''hello world''"]
    by (simp add: CHUNK_SIZE_def CHUNK_OVERLAP_def w spec_chunks_def spec_window_def)
  then show ?thesis
    by (simp add: ingest_markdown_files_def ends_with_def append_chunks_eq)
qed

lemma hello_batch:
  "index_batch unit_provider (module_init ()) [''hello world''] [markdown_meta ''a.md'' 0 (Suc 0)] =
     (Inr (), hello_world)"
proof -
  have e: "embed_text unit_provider (module_init ()) ''hello world'' =
     (Inr unit_vec, (module_init ())\<lparr>sent := [''hello world'']\<rparr>)"
    by (simp add: embed_text_def unit_provider_def normalize_unit_vec module_init_def)
  have d: "dict_with_text ''hello world'' (markdown_meta ''a.md'' 0 (Suc 0)) = hello_record"
    by (simp add: hello_meta dict_with_text_def hello_record_def)
  have a: "index_add [] [unit_vec] = Inr [unit_vec]"
    by (simp add: index_add_def EMBED_DIM_def unit_vec_def)
  show ?thesis
    using safe_embed_ok[OF e, of 0] a
    by (simp add: index_batch_def d module_init_def hello_world_def)
qed

lemma hello_main:
  "main unit_provider (module_init ()) (Some [(''a.md'', ''hello world'')]) None =
     Some (Inr (Some ([unit_vec], [hello_record])), hello_world)"
proof -
  have "batch_loop unit_provider (module_init ()) [''hello world''] [markdown_meta ''a.md'' 0 (Suc 0)] 0 =
        (Inr (), hello_world)"
    by (simp add: batch_loop.simps[of _ _ _ _ 0] batch_loop.simps[of _ _ _ _ 100] BATCH_SIZE_def
        hello_batch)
  then show ?thesis
    by (simp add: main_def hello_ingest ingest_discourse_json_def hello_world_def)
qed

lemma embed_loop_order:
  "embed_loop P w texts embs = (Inr vs, w') \<Longrightarrow>
   \<exists>us ws. vs = embs @ us \<and> length us = length texts \<and> length ws = Suc (length texts) \<and>
     ws ! 0 = w \<and> ws ! length texts = w' \<and>
     (\<forall>i < length texts. safe_embed P (ws ! i) (texts ! i) 0 = (Inr (us ! i), ws ! Suc i))"
proof (induction texts arbitrary: w embs)
  case Nil
  then have "vs = embs @ [] \<and> length ([] :: vec list) = length ([] :: string list) \<and>
     length [w] = Suc (length ([] :: string list)) \<and> [w] ! 0 = w \<and> [w] ! length ([] :: string list) = w'"
    by simp
  then show ?case by (intro exI[of _ "[]"] exI[of _ "[w]"]) simp
next
  case (Cons t texts)
  obtain x w1 where s: "safe_embed P w t 0 = (x, w1)" by force
  from Cons.prems s obtain emb where x: "x = Inr emb"
    and l: "embed_loop P w1 texts (embs @ [emb]) = (Inr vs, w')"
    by (cases x) auto
  from Cons.IH[OF l] obtain us ws where
    v: "vs = (embs @ [emb]) @ us" and lu: "length us = length texts"
    and lw: "length ws = Suc (length texts)" and w0: "ws ! 0 = w1"
    and wn: "ws ! length texts = w'"
    and st: "\<forall>i < length texts. safe_embed P (ws ! i) (texts ! i) 0 = (Inr (us ! i), ws ! Suc i)"
    by blast
  have "\<forall>i < length (t # texts).
      safe_embed P ((w # ws) ! i) ((t # texts) ! i) 0 = (Inr ((emb # us) ! i), (w # ws) ! Suc i)"
  proof (intro allI impI)
    fix i assume i: "i < length (t # texts)"
    show "safe_embed P ((w # ws) ! i) ((t # texts) ! i) 0 = (Inr ((emb # us) ! i), (w # ws) ! Suc i)"
    proof (cases i)
      case 0
      then show ?thesis using s x w0 by simp
    next
      case (Suc j)
      with i have "j < length texts" by simp
      with st Suc show ?thesis by simp
    qed
  qed
  with v lu lw wn show ?case
    by (intro exI[of _ "emb # us"] exI[of _ "w # ws"]) simp
qed

lemma index_batch_committed_order:
  assumes "index_batch P w texts metas = (Inr (), w')"
  shows "\<exists>vs ws. length vs = length texts \<and> length ws = Suc (length texts) \<and> ws ! 0 = w \<and>
           (\<forall>i < length texts. safe_embed P (ws ! i) (texts ! i) 0 = (Inr (vs ! i), ws ! Suc i)) \<and>
           embed_loop P w texts [] = (Inr vs, ws ! length texts) \<and>
           index w' = index w @ vs \<and>
           metadata w' = metadata w @ map2 dict_with_text texts metas"
proof -
  from index_batch_committed[OF assms] obtain vs w1 where
    l: "embed_loop P w texts [] = (Inr vs, w1)" and ix: "index w' = index w @ vs"
    and md: "metadata w' = metadata w @ map2 dict_with_text texts metas" by blast
  from embed_loop_order[OF l] obtain us ws where
    "vs = [] @ us" "length us = length texts" "length ws = Suc (length texts)"
    "ws ! 0 = w" "ws ! length texts = w1"
    "\<forall>i < length texts. safe_embed P (ws ! i) (texts ! i) 0 = (Inr (us ! i), ws ! Suc i)"
    by blast
  with l ix md show ?thesis
    by (intro exI[of _ vs] exI[of _ ws]) simp
qed

lemma ab_embeds:
  "safe_embed too_long_provider (module_init ()) ''a'' 0 =
     (Inr unit_vec, (module_init ())\<lparr>sent := [''a'']\<rparr>)"
  "safe_embed too_long_provider ((module_init ())\<lparr>sent := [''a'']\<rparr>) ''b'' 0 =
     (Inr unit_vec2, (module_init ())\<lparr>sent := [''a'', ''b'']\<rparr>)"
proof -
  have "embed_text too_long_provider (module_init ()) ''a'' =
     (Inr unit_vec, (module_init ())\<lparr>sent := [''a'']\<rparr>)"
    by (simp add: embed_text_def too_long_provider_def normalize_unit_vec module_init_def)
  then show "safe_embed too_long_provider (module_init ()) ''a'' 0 =
     (Inr unit_vec, (module_init ())\<lparr>sent := [''a'']\<rparr>)" by (rule safe_embed_ok)
  have "embed_text too_long_provider ((module_init ())\<lparr>sent := [''a'']\<rparr>) ''b'' =
     (Inr unit_vec2, (module_init ())\<lparr>sent := [''a'', ''b'']\<rparr>)"
    by (simp add: embed_text_def too_long_provider_def normalize_unit_vec2 module_init_def)
  then show "safe_embed too_long_provider ((module_init ())\<lparr>sent := [''a'']\<rparr>) ''b'' 0 =
     (Inr unit_vec2, (module_init ())\<lparr>sent := [''a'', ''b'']\<rparr>)" by (rule safe_embed_ok)
qed

lemma ab_batch:
  "index_batch too_long_provider (module_init ()) [''a'', ''b'']
     [[(''chunk_id'', PInt 0)], [(''chunk_id'', PInt 1)]] = (Inr (), ab_world)"
proof -
  have l: "embed_loop too_long_provider (module_init ()) [''a'', ''b''] [] =
     (Inr [unit_vec, unit_vec2], (module_init ())\<lparr>sent := [''a'', ''b'']\<rparr>)"
    by (simp add: ab_embeds)
  have a: "index_add [] [unit_vec, unit_vec2] = Inr [unit_vec, unit_vec2]"
    by (simp add: index_add_def EMBED_DIM_def unit_vec_def unit_vec2_def)
  show ?thesis
    unfolding index_batch_def l
    using a by (simp add: dict_with_text_def module_init_def ab_world_def)
qed

text \<open>
  C1: the index and the metadata list grow in lockstep. A batch committed by \<open>index_batch\<close>
  for \<open>n\<close> texts and their \<open>n\<close> metadata dictionaries appends \<open>n\<close> vectors to the index and
  exactly \<open>n\<close> records to the metadata, in the same order: the vector at position \<open>i\<close> of
  the batch is what \<open>safe_embed\<close> returned for text \<open>i\<close> (the texts embedded one after the
  other, each in the state the one before left), and the record at position \<open>i\<close> is made of
  text \<open>i\<close> and dictionary \<open>i\<close>. A batch that fails changes neither store. \<open>main\<close> passes
  slices of two lists of equal length, built pairwise by the two ingestion functions; so
  after every run of \<open>main\<close> that starts with stores of equal size, the two stores have
  equal size again, and so do the two artifacts a completed run saves.
\<close>

theorem index_and_metadata_lockstep:
  "(index_batch P w texts metas = (Inr (), w') \<and> length texts = length metas \<longrightarrow>
      (\<exists>vs ws. length vs = length texts \<and> length ws = Suc (length texts) \<and> ws ! 0 = w \<and>
         (\<forall>i < length texts. safe_embed P (ws ! i) (texts ! i) 0 = (Inr (vs ! i), ws ! Suc i)) \<and>
         embed_loop P w texts [] = (Inr vs, ws ! length texts) \<and>
         index w' = index w @ vs \<and>
         metadata w' = metadata w @ map2 dict_with_text texts metas \<and>
         length (map2 dict_with_text texts metas) = length texts \<and>
         (\<forall>i < length texts.
            index w' ! (length (index w) + i) = vs ! i \<and>
            metadata w' ! (length (metadata w) + i) = dict_with_text (texts ! i) (metas ! i)))) \<and>
   (index_batch P w texts metas = (Inl e, w') \<longrightarrow> index w' = index w \<and> metadata w' = metadata w) \<and>
   (main P w0 markdown_dir discourse_file = Some (r, w_end) \<and>
    length (index w0) = length (metadata w0) \<longrightarrow>
      length (index w_end) = length (metadata w_end) \<and>
      (\<forall>ix ms. r = Inr (Some (ix, ms)) \<longrightarrow> length ix = length ms))"
proof (intro conjI impI)
  assume a: "index_batch P w texts metas = (Inr (), w') \<and> length texts = length metas"
  then have b: "index_batch P w texts metas = (Inr (), w')" and eq: "length texts = length metas"
    by simp_all
  from index_batch_committed_order[OF b] obtain vs ws where
    lv: "length vs = length texts" and lw: "length ws = Suc (length texts)" and w0: "ws ! 0 = w"
    and st: "\<forall>i < length texts. safe_embed P (ws ! i) (texts ! i) 0 = (Inr (vs ! i), ws ! Suc i)"
    and l: "embed_loop P w texts [] = (Inr vs, ws ! length texts)"
    and ix: "index w' = index w @ vs"
    and md: "metadata w' = metadata w @ map2 dict_with_text texts metas" by blast
  have pos: "\<forall>i < length texts.
            index w' ! (length (index w) + i) = vs ! i \<and>
            metadata w' ! (length (metadata w) + i) = dict_with_text (texts ! i) (metas ! i)"
    using ix md lv eq by (simp add: nth_append)
  show "\<exists>vs ws. length vs = length texts \<and> length ws = Suc (length texts) \<and> ws ! 0 = w \<and>
         (\<forall>i < length texts. safe_embed P (ws ! i) (texts ! i) 0 = (Inr (vs ! i), ws ! Suc i)) \<and>
         embed_loop P w texts [] = (Inr vs, ws ! length texts) \<and>
         index w' = index w @ vs \<and>
         metadata w' = metadata w @ map2 dict_with_text texts metas \<and>
         length (map2 dict_with_text texts metas) = length texts \<and>
         (\<forall>i < length texts.
            index w' ! (length (index w) + i) = vs ! i \<and>
            metadata w' ! (length (metadata w) + i) = dict_with_text (texts ! i) (metas ! i))"
    using lv lw w0 st l ix md eq pos
    by (intro exI[of _ vs] exI[of _ ws]) simp
next
  assume "index_batch P w texts metas = (Inl e, w')"
  from index_batch_failed[OF this]
  show "index w' = index w" and "metadata w' = metadata w" by simp_all
next
  assume a: "main P w0 markdown_dir discourse_file = Some (r, w_end) \<and>
    length (index w0) = length (metadata w0)"
  with main_lockstep[of P w0 markdown_dir discourse_file r w_end]
  show "length (index w_end) = length (metadata w_end)"
    and "\<forall>ix ms. r = Inr (Some (ix, ms)) \<longrightarrow> length ix = length ms"
    by auto
qed

theorem index_and_metadata_lockstep_witness:
  "index_batch too_long_provider (module_init ()) [''a'', ''b'']
     [[(''chunk_id'', PInt 0)], [(''chunk_id'', PInt 1)]] = (Inr (), ab_world) \<and>
   fst (safe_embed too_long_provider (module_init ()) ''a'' 0) = Inr unit_vec \<and>
   fst (safe_embed too_long_provider ((module_init ())\<lparr>sent := [''a'']\<rparr>) ''b'' 0) = Inr unit_vec2 \<and>
   unit_vec \<noteq> unit_vec2 \<and>
   index ab_world = [unit_vec, unit_vec2] \<and>
   metadata ab_world = [[(''text'', PStr ''a''), (''chunk_id'', PInt 0)],
                        [(''text'', PStr ''b''), (''chunk_id'', PInt 1)]] \<and>
   main unit_provider (module_init ()) (Some [(''a.md'', ''hello world'')]) None =
     Some (Inr (Some ([unit_vec], [hello_record])), hello_world) \<and>
   length (index hello_world) = length (metadata hello_world)"
proof -
  have m: "length (index hello_world) = length (metadata hello_world)"
    using index_and_metadata_lockstep[where P = unit_provider and w = "module_init ()"
      and texts = "[]" and metas = "[]" and w' = "module_init ()" and e = ShapeError
      and ?w0.0 = "module_init ()"
      and markdown_dir = "Some [(''a.md'', ''hello world'')]" and discourse_file = None
      and r = "Inr (Some ([unit_vec], [hello_record]))" and w_end = hello_world]
      hello_main
    by (simp add: module_init_def)
  have h: "index_batch too_long_provider (module_init ()) [''a'', ''b'']
       [[(''chunk_id'', PInt 0)], [(''chunk_id'', PInt 1)]] = (Inr (), ab_world) \<and>
     length [''a'', ''b''] = length [[(''chunk_id'', PInt 0)], [(''chunk_id'', PInt 1)]]"
    using ab_batch by simp
  have "\<exists>vs ws. length vs = length [''a'', ''b''] \<and> ws ! 0 = module_init () \<and>
          (\<forall>i < length [''a'', ''b''].
             safe_embed too_long_provider (ws ! i) ([''a'', ''b''] ! i) 0 = (Inr (vs ! i), ws ! Suc i)) \<and>
          index ab_world = index (module_init ()) @ vs"
    using index_and_metadata_lockstep[where P = too_long_provider and w = "module_init ()"
      and texts = "[''a'', ''b'']" and metas = "[[(''chunk_id'', PInt 0)], [(''chunk_id'', PInt 1)]]"
      and w' = ab_world and e = ShapeError and ?w0.0 = "module_init ()"
      and markdown_dir = None and discourse_file = None
      and r = "Inr None" and w_end = "module_init ()", THEN conjunct1, rule_format, OF h]
    by blast
  have "unit_vec \<noteq> unit_vec2" by (simp add: unit_vec_def unit_vec2_def)
  with m show ?thesis
    using ab_batch hello_main ab_embeds by (simp add: ab_world_def)
qed

section \<open>Retrieval and answer assembly\<close>

lemma gather_results_those:
  "gather_results mdata cands acc =
   (case those (map (resolve mdata) (kept mdata cands)) of
      None \<Rightarrow> None
    | Some found \<Rightarrow> Some (acc @ found))"
proof (induction cands arbitrary: acc)
  case Nil
  then show ?case by (simp add: kept_def)
next
  case (Cons c cands)
  obtain d i where c: "c = (d, i)" by force
  show ?case
  proof (cases "in_range mdata i \<and> SIMILARITY_THRESHOLD \<le> d")
    case False
    then have "kept mdata (c # cands) = kept mdata cands" by (simp add: kept_def c)
    moreover from False have "gather_results mdata (c # cands) acc = gather_results mdata cands acc"
      by (auto simp: c in_range_def)
    ultimately show ?thesis using Cons.IH by simp
  next
    case True
    then have k: "kept mdata (c # cands) = c # kept mdata cands" by (simp add: kept_def c)
    show ?thesis
    proof (cases "resolve mdata c")
      case None
      then have "gather_results mdata (c # cands) acc = None"
        using True by (auto simp: c in_range_def resolve_def Let_def split: option.splits)
      then show ?thesis using None k by simp
    next
      case (Some r)
      then have "gather_results mdata (c # cands) acc = gather_results mdata cands (acc @ [r])"
        using True by (auto simp: c in_range_def resolve_def Let_def split: option.splits)
      then show ?thesis using Some k Cons.IH[of "acc @ [r]"]
        by (simp split: option.splits)
    qed
  qed
qed

lemma gather_unfiltered_those:
  "gather_unfiltered mdata cands acc =
   (case those (map (resolve mdata) (filter (\<lambda>(d, i). in_range mdata i) cands)) of
      None \<Rightarrow> None
    | Some found \<Rightarrow> Some (acc @ found))"
proof (induction cands arbitrary: acc)
  case Nil
  then show ?case by simp
next
  case (Cons c cands)
  obtain d i where c: "c = (d, i)" by force
  show ?case
  proof (cases "in_range mdata i")
    case False
    then have "gather_unfiltered mdata (c # cands) acc = gather_unfiltered mdata cands acc"
      by (auto simp: c in_range_def)
    then show ?thesis using Cons.IH False by (simp add: c)
  next
    case True
    show ?thesis
    proof (cases "resolve mdata c")
      case None
      then have "gather_unfiltered mdata (c # cands) acc = None"
        using True by (auto simp: c in_range_def resolve_def Let_def split: option.splits)
      then show ?thesis using None True by (simp add: c)
    next
      case (Some r)
      then have "gather_unfiltered mdata (c # cands) acc = gather_unfiltered mdata cands (acc @ [r])"
        using True by (auto simp: c in_range_def resolve_def Let_def split: option.splits)
      then show ?thesis using Some True Cons.IH[of "acc @ [r]"]
        by (simp add: c split: option.splits)
    qed
  qed
qed

lemma those_map_all2:
  "those (map f xs) = Some ys \<Longrightarrow> list_all2 (\<lambda>x y. f x = Some y) xs ys"
  by (induction xs arbitrary: ys) (auto split: option.splits)

lemma resolve_similarity: "resolve mdata c = Some r \<Longrightarrow> similarity r = fst c"
  by (auto simp: resolve_def Let_def split: option.splits)

lemma found_similarities:
  assumes "those (map (resolve mdata) cs) = Some found"
  shows "map similarity found = map fst cs"
proof -
  from those_map_all2[OF assms] have "list_all2 (\<lambda>c r. similarity r = fst c) cs found"
    by (rule list_all2_mono) (simp add: resolve_similarity)
  then show ?thesis
    by (induction rule: list_all2_induct) simp_all
qed

lemma py_slice_take: "0 \<le> k \<Longrightarrow> py_slice xs 0 k = take (nat k) xs"
  by (auto simp: py_slice_def Let_def min_def)

lemma search_similar_eq:
  "search_similar raw mdata q top_k =
     (if 0 < top_k then
        (case raw q (nat (top_k * 2)) of
           None \<Rightarrow> Inl SearchError
         | Some candidates \<Rightarrow>
             (case those (map (resolve mdata) (kept mdata candidates)) of
                None \<Rightarrow> Inl SearchError
              | Some found \<Rightarrow> Inr (take (nat top_k) (sort_key (\<lambda>x. - similarity x) found))))
      else Inl SearchError)"
  by (auto simp: search_similar_def index_search_def gather_results_those py_slice_take
      split: option.splits)


lemma search_unfiltered_eq:
  "search_unfiltered raw mdata q top_k =
     (if 0 < top_k then
        (case raw q (nat (top_k * 2)) of
           None \<Rightarrow> Inl SearchError
         | Some candidates \<Rightarrow>
             (case those (map (resolve mdata) (filter (\<lambda>(d, i). in_range mdata i) candidates)) of
                None \<Rightarrow> Inl SearchError
              | Some found \<Rightarrow> Inr (take (nat top_k) (sort_key (\<lambda>x. - similarity x) found))))
      else Inl SearchError)"
  by (auto simp: search_unfiltered_def index_search_def gather_unfiltered_those py_slice_take
      split: option.splits)

lemma found_above_threshold:
  assumes "those (map (resolve mdata) (kept mdata cs)) = Some found" "x \<in> set found"
  shows "SIMILARITY_THRESHOLD \<le> similarity x"
proof -
  from assms(2) have "similarity x \<in> set (map similarity found)" by simp
  then have "similarity x \<in> fst ` set (kept mdata cs)"
    using found_similarities[OF assms(1)] by simp
  then show ?thesis by (auto simp: kept_def)
qed

lemma search_similar_properties:
  assumes "search_similar raw mdata q top_k = Inr results"
  shows "int (length results) \<le> top_k"
    and "\<forall>x \<in> set results. SIMILARITY_THRESHOLD \<le> similarity x"
    and "sorted (map (\<lambda>x. - similarity x) results)"
proof -
  from assms obtain candidates found where k: "0 < top_k"
    and f: "those (map (resolve mdata) (kept mdata candidates)) = Some found"
    and r: "results = take (nat top_k) (sort_key (\<lambda>x. - similarity x) found)"
    by (auto simp: search_similar_eq split: if_splits option.splits)
  show "int (length results) \<le> top_k" using k r by simp
  show "\<forall>x \<in> set results. SIMILARITY_THRESHOLD \<le> similarity x"
  proof
    fix x assume "x \<in> set results"
    then have "x \<in> set (sort_key (\<lambda>x. - similarity x) found)"
      unfolding r by (rule in_set_takeD)
    then show "SIMILARITY_THRESHOLD \<le> similarity x"
      using found_above_threshold[OF f] by simp
  qed
  have "sorted (take (nat top_k) (map (\<lambda>x. - similarity x) (sort_key (\<lambda>x. - similarity x) found)))"
    by (rule sorted_wrt_take) simp
  then show "sorted (map (\<lambda>x. - similarity x) results)"
    unfolding r by (simp add: take_map)
qed

text \<open>
  C7: for every query, every answer of the index and every metadata list,
  \<open>search_similar\<close> asks the index for \<open>2 * top_k\<close> candidates, keeps those whose position
  is within the metadata and whose similarity is at least the threshold, resolves each of
  them through the metadata in search order, sorts them by similarity, descending and
  stably (among equal similarities the search order is kept), and returns the first
  \<open>top_k\<close>: never more than \<open>top_k\<close> results, each with a similarity of at least the
  threshold. It returns a result exactly when \<open>top_k\<close> is positive, the index answers and
  every kept candidate has the keys \<open>text\<close>, \<open>source\<close> and \<open>type\<close>; otherwise it raises the
  search error.
\<close>

theorem search_similar_retrieval:
  "(search_similar raw mdata q top_k = Inr results \<longleftrightarrow>
      0 < top_k \<and>
      (\<exists>candidates found.
         raw q (nat (2 * top_k)) = Some candidates \<and>
         those (map (resolve mdata) (kept mdata candidates)) = Some found \<and>
         results = take (nat top_k) (sort_key (\<lambda>x. - similarity x) found))) \<and>
   (search_similar raw mdata q top_k = Inr results \<longrightarrow>
      int (length results) \<le> top_k \<and>
      (\<forall>x \<in> set results. SIMILARITY_THRESHOLD \<le> similarity x) \<and>
      sorted (map (\<lambda>x. - similarity x) results)) \<and>
   (those (map (resolve mdata) cs) = Some found \<longrightarrow>
      map similarity found = map fst cs \<and>
      (\<forall>s. filter (\<lambda>x. similarity x = s) (sort_key (\<lambda>x. - similarity x) found) =
           filter (\<lambda>x. similarity x = s) found))"
proof (intro conjI impI)
  show "search_similar raw mdata q top_k = Inr results \<longleftrightarrow>
      0 < top_k \<and>
      (\<exists>candidates found.
         raw q (nat (2 * top_k)) = Some candidates \<and>
         those (map (resolve mdata) (kept mdata candidates)) = Some found \<and>
         results = take (nat top_k) (sort_key (\<lambda>x. - similarity x) found))"
    by (auto simp: search_similar_eq mult.commute split: option.splits)
next
  assume a: "search_similar raw mdata q top_k = Inr results"
  from search_similar_properties[OF a]
  show "int (length results) \<le> top_k"
    and "\<forall>x \<in> set results. SIMILARITY_THRESHOLD \<le> similarity x"
    and "sorted (map (\<lambda>x. - similarity x) results)" by simp_all
next
  assume a: "those (map (resolve mdata) cs) = Some found"
  show "map similarity found = map fst cs" by (rule found_similarities[OF a])
  show "\<forall>s. filter (\<lambda>x. similarity x = s) (sort_key (\<lambda>x. - similarity x) found) =
           filter (\<lambda>x. similarity x = s) found"
  proof
    fix s
    have "filter (\<lambda>x. - similarity x = - s) (sort_key (\<lambda>x. - similarity x) found) =
          filter (\<lambda>x. - similarity x = - s) found"
      by (rule sort_key_stable)
    then show "filter (\<lambda>x. similarity x = s) (sort_key (\<lambda>x. - similarity x) found) =
           filter (\<lambda>x. similarity x = s) found" by simp
  qed
qed

lemma six_kept:
  "kept [hello_record, second_record] [(9/10, 7), (7/10, 0), (1/2, 1), (1/2, 0), (- (1/5), 1), (- 1, - 1)]
   = [(7/10, 0), (1/2, 1), (1/2, 0)]"
  by (simp add: kept_def in_range_def SIMILARITY_THRESHOLD_def)

lemma six_found:
  "those (map (resolve [hello_record, second_record]) [(7/10, 0), (1/2, 1), (1/2, 0)]) =
   Some [hit ''hello world'' (7/10) 0, hit ''second chunk'' (1/2) 1, hit ''hello world'' (1/2) 0]"
  by (simp add: resolve_def hello_record_def second_record_def hit_def)

lemma six_sorted:
  "sort_key (\<lambda>x. - similarity x)
     [hit ''hello world'' (7/10) 0, hit ''second chunk'' (1/2) 1, hit ''hello world'' (1/2) 0] =
   [hit ''hello world'' (7/10) 0, hit ''second chunk'' (1/2) 1, hit ''hello world'' (1/2) 0]"
  by (simp add: hit_def)

theorem search_similar_retrieval_witness:
  "search_similar six_candidates [hello_record, second_record] () 3 =
     Inr [hit ''hello world'' (7/10) 0, hit ''second chunk'' (1/2) 1, hit ''hello world'' (1/2) 0] \<and>
   int (length [hit ''hello world'' (7/10) 0, hit ''second chunk'' (1/2) 1, hit ''hello world'' (1/2) 0]) \<le> 3"
proof -
  let ?cands = "[(9/10, 7), (7/10, 0), (1/2, 1), (1/2, 0), (- (1/5), 1), (- 1, - 1)] :: (real \<times> int) list"
  let ?found = "[hit ''hello world'' (7/10) 0, hit ''second chunk'' (1/2) 1, hit ''hello world'' (1/2) 0]"
  let ?results = "[hit ''hello world'' (7/10) 0, hit ''second chunk'' (1/2) 1, hit ''hello world'' (1/2) 0]"
  have c: "six_candidates () (nat (2 * 3)) = Some ?cands"
    by (simp add: six_candidates_def)
  have f: "those (map (resolve [hello_record, second_record])
             (kept [hello_record, second_record] ?cands)) = Some ?found"
    by (simp only: six_kept six_found)
  have r: "?results = take (nat 3) (sort_key (\<lambda>x. - similarity x) ?found)"
    by (simp only: six_sorted) simp
  have "0 < (3::int) \<and>
      (\<exists>candidates found.
         six_candidates () (nat (2 * 3)) = Some candidates \<and>
         those (map (resolve [hello_record, second_record])
             (kept [hello_record, second_record] candidates)) = Some found \<and>
         ?results = take (nat 3) (sort_key (\<lambda>x. - similarity x) found))"
    by (intro conjI exI[of _ ?cands] exI[of _ ?found]) (simp, rule c, rule f, rule r)
  then have s: "search_similar six_candidates [hello_record, second_record] () 3 = Inr ?results"
    using search_similar_retrieval[of six_candidates "[hello_record, second_record]" "()" 3
        ?results "[]" "[]"] by blast
  moreover from s have "int (length ?results) \<le> 3"
    using search_similar_retrieval[of six_candidates "[hello_record, second_record]" "()" 3
        ?results "[]" "[]"] by blast
  ultimately show ?thesis by blast
qed


lemma kept_filter:
  "kept mdata cands =
   filter (\<lambda>(d, i). in_range mdata i) (filter (\<lambda>(d, i). SIMILARITY_THRESHOLD \<le> d) cands)"
  by (induction cands) (auto simp: kept_def)

lemma kept_all_nonneg:
  assumes "\<forall>(d, i) \<in> set cands. in_range mdata i \<longrightarrow> 0 \<le> d"
  shows "kept mdata cands = filter (\<lambda>(d, i). in_range mdata i) cands"
  using assms by (induction cands) (auto simp: kept_def SIMILARITY_THRESHOLD_def)

lemma threshold_zero:
  "search_similar raw mdata q top_k =
     search_unfiltered (\<lambda>q n. map_option (filter (\<lambda>(d, i). 0 \<le> d)) (raw q n)) mdata q top_k"
  "(\<forall>cands. raw q (nat (top_k * 2)) = Some cands \<longrightarrow>
       (\<forall>(d, i) \<in> set cands. in_range mdata i \<longrightarrow> 0 \<le> d)) \<Longrightarrow>
   search_similar raw mdata q top_k = search_unfiltered raw mdata q top_k"
proof -
  show "search_similar raw mdata q top_k =
     search_unfiltered (\<lambda>q n. map_option (filter (\<lambda>(d, i). 0 \<le> d)) (raw q n)) mdata q top_k"
    by (cases "raw q (nat (top_k * 2))")
       (simp_all add: search_similar_eq search_unfiltered_eq kept_filter SIMILARITY_THRESHOLD_def)
next
  assume a: "\<forall>cands. raw q (nat (top_k * 2)) = Some cands \<longrightarrow>
       (\<forall>(d, i) \<in> set cands. in_range mdata i \<longrightarrow> 0 \<le> d)"
  show "search_similar raw mdata q top_k = search_unfiltered raw mdata q top_k"
  proof (cases "raw q (nat (top_k * 2))")
    case None
    then show ?thesis by (simp add: search_similar_eq search_unfiltered_eq)
  next
    case (Some cands)
    with a have "kept mdata cands = filter (\<lambda>(d, i). in_range mdata i) cands"
      by (intro kept_all_nonneg) simp
    with Some show ?thesis by (simp add: search_similar_eq search_unfiltered_eq)
  qed
qed

text \<open>
  The claim C8 as the specification states it fails: a candidate within the metadata whose
  inner product with the query is negative is dropped by the test against the threshold 0,
  and is returned when no threshold filtering is done.
\<close>

theorem threshold_noop_counterexample:
  "negative_candidate () (nat (1 * 2)) = Some [(- (1/4), 1), (- (1/2), 0)] \<and>
   in_range [hello_record, second_record] 1 \<and> in_range [hello_record, second_record] 0 \<and>
   search_similar negative_candidate [hello_record, second_record] () 1 = Inr [] \<and>
   search_unfiltered negative_candidate [hello_record, second_record] () 1 =
     Inr [hit ''second chunk'' (- (1/4)) 1]"
  by (simp add: search_similar_eq search_unfiltered_eq negative_candidate_def kept_def in_range_def
      SIMILARITY_THRESHOLD_def resolve_def hello_record_def second_record_def hit_def)

text \<open>
  C8 (amended): with \<open>SIMILARITY_THRESHOLD = 0\<close> the threshold test drops exactly the
  candidates of negative similarity: retrieval gives what retrieval without any threshold
  filtering gives on the index answer without its negative candidates. It is a no-op
  whenever every candidate within the metadata has a similarity of at least 0.
\<close>

theorem threshold_zero_filter:
  "search_similar raw mdata q top_k =
     search_unfiltered (\<lambda>q n. map_option (filter (\<lambda>(d, i). 0 \<le> d)) (raw q n)) mdata q top_k \<and>
   ((\<forall>cands. raw q (nat (top_k * 2)) = Some cands \<longrightarrow>
        (\<forall>(d, i) \<in> set cands. in_range mdata i \<longrightarrow> 0 \<le> d)) \<longrightarrow>
    search_similar raw mdata q top_k = search_unfiltered raw mdata q top_k)"
proof (intro conjI impI)
  show "search_similar raw mdata q top_k =
     search_unfiltered (\<lambda>q n. map_option (filter (\<lambda>(d, i). 0 \<le> d)) (raw q n)) mdata q top_k"
    by (rule threshold_zero(1))
next
  assume "\<forall>cands. raw q (nat (top_k * 2)) = Some cands \<longrightarrow>
        (\<forall>(d, i) \<in> set cands. in_range mdata i \<longrightarrow> 0 \<le> d)"
  then show "search_similar raw mdata q top_k = search_unfiltered raw mdata q top_k"
    by (rule threshold_zero(2))
qed

theorem threshold_zero_filter_witness:
  "two_candidates () (nat (1 * 2)) = Some [(1/2, 1), (1/4, 0)] \<and>
   search_similar two_candidates [hello_record, second_record] () 1 =
     Inr [hit ''second chunk'' (1/2) 1] \<and>
   search_unfiltered two_candidates [hello_record, second_record] () 1 =
     Inr [hit ''second chunk'' (1/2) 1]"
proof -
  have u: "search_unfiltered two_candidates [hello_record, second_record] () 1 =
     Inr [hit ''second chunk'' (1/2) 1]"
    by (simp add: search_unfiltered_eq two_candidates_def in_range_def resolve_def
        hello_record_def second_record_def hit_def)
  have h: "\<forall>cands. two_candidates () (nat (1 * 2)) = Some cands \<longrightarrow>
        (\<forall>(d, i) \<in> set cands. in_range [hello_record, second_record] i \<longrightarrow> 0 \<le> d)"
    by (auto simp: two_candidates_def in_range_def)
  from threshold_zero_filter[of two_candidates "[hello_record, second_record]" "()" 1] h
  have "search_similar two_candidates [hello_record, second_record] () 1 =
        search_unfiltered two_candidates [hello_record, second_record] () 1"
    by blast
  with u show ?thesis by (simp add: in_range_def two_candidates_def)
qed

lemma update_fresh: "k \<notin> fst ` set al \<Longrightarrow> AList.update k v al = al @ [(k, v)]"
  by (induction al) auto

lemma context_loop_sources:
  "context_loop (enumerate n chunks) parts used = Some (parts', used') \<Longrightarrow>
   \<forall>k \<in> fst ` set used. k \<le> n \<Longrightarrow>
   used' = used @ map (\<lambda>(i, c). (i + 1, source c, take 150 (py_str (content c)))) (enumerate n chunks) \<and>
   (\<forall>c \<in> set chunks. \<exists>s. content c = PStr s)"
proof (induction chunks arbitrary: n parts used)
  case Nil
  then show ?case by simp
next
  case (Cons c chunks)
  from Cons.prems(1) obtain s where s: "content c = PStr s"
    by (auto simp: Let_def split: pyval.splits)
  have fresh: "n + 1 \<notin> fst ` set used" using Cons.prems(2) by auto
  let ?used = "used @ [(n + 1, source c, take 150 s)]"
  from Cons.prems(1) s fresh have
    "context_loop (enumerate (Suc n) chunks)
       (parts @ [''[Source '' @ str_nat (n + 1) @ '']:\<newline>'' @ s @ ''\<newline>'']) ?used = Some (parts', used')"
    by (simp add: update_fresh)
  moreover have "\<forall>k \<in> fst ` set ?used. k \<le> Suc n" using Cons.prems(2) by auto
  ultimately have "used' = ?used @ map (\<lambda>(i, c). (i + 1, source c, take 150 (py_str (content c))))
        (enumerate (Suc n) chunks) \<and> (\<forall>c \<in> set chunks. \<exists>s. content c = PStr s)"
    by (rule Cons.IH)
  then show ?case using s by simp
qed


lemma generate_answer_nonempty:
  assumes "context_chunks \<noteq> []" "generate_answer G w question context_chunks = (Inr out, w')"
  shows "links out = map (\<lambda>c. (source c, take 150 (py_str (content c)))) context_chunks"
    and "\<forall>c \<in> set context_chunks. \<exists>s. content c = PStr s"
    and "\<exists>prompt. prompts w' = prompts w @ [prompt]"
proof -
  from assms obtain parts used where
    l: "context_loop (enumerate 0 context_chunks) [] [] = Some (parts, used)"
    by (auto simp: generate_answer_def split: option.splits)
  from context_loop_sources[OF l]
  have u: "used = map (\<lambda>(i, c). (i + 1, source c, take 150 (py_str (content c))))
                    (enumerate 0 context_chunks)"
    and c: "\<forall>c \<in> set context_chunks. \<exists>s. content c = PStr s" by simp_all
  from assms l have o: "links out = map (\<lambda>(source_num, url, snippet). (url, snippet)) used"
    and p: "\<exists>prompt. prompts w' = prompts w @ [prompt]"
    by (auto simp: generate_answer_def Let_def split: prod.splits gen_reply.splits option.splits)
  have "map (\<lambda>(source_num, url, snippet). (url, snippet)) used =
        map ((\<lambda>c. (source c, take 150 (py_str (content c)))) \<circ> snd) (enumerate 0 context_chunks)"
    unfolding u by (simp add: case_prod_beta o_def)
  also have "\<dots> = map (\<lambda>c. (source c, take 150 (py_str (content c)))) context_chunks"
    by (simp only: map_map[symmetric] map_snd_enumerate)
  finally show "links out = map (\<lambda>c. (source c, take 150 (py_str (content c)))) context_chunks"
    using o by simp
  show "\<forall>c \<in> set context_chunks. \<exists>s. content c = PStr s" by (rule c)
  show "\<exists>prompt. prompts w' = prompts w @ [prompt]" by (rule p)
qed

text \<open>
  C9: given no chunk, \<open>generate_answer\<close> returns the fixed answer with an empty list of
  links and leaves the generative model alone (its state and the log of prompts are
  unchanged). Given at least one chunk, whenever it returns a response, the links are one
  entry per chunk, in the order of the chunks, each the source of the chunk with the
  first 150 characters of its text; exactly one prompt has then been sent to the model.
\<close>

theorem generate_answer_links:
  "generate_answer G w question [] = (Inr \<lparr>answer = no_answer, links = []\<rparr>, w) \<and>
   (context_chunks \<noteq> [] \<and> generate_answer G w question context_chunks = (Inr out, w') \<longrightarrow>
      links out = map (\<lambda>c. (source c, take 150 (py_str (content c)))) context_chunks \<and>
      length (links out) = length context_chunks \<and>
      (\<forall>c \<in> set context_chunks. \<exists>s. content c = PStr s) \<and>
      (\<exists>prompt. prompts w' = prompts w @ [prompt]))"
proof (intro conjI impI)
  show "generate_answer G w question [] = (Inr \<lparr>answer = no_answer, links = []\<rparr>, w)"
    by (simp add: generate_answer_def)
next
  assume a: "context_chunks \<noteq> [] \<and> generate_answer G w question context_chunks = (Inr out, w')"
  then have n: "context_chunks \<noteq> []"
    and g: "generate_answer G w question context_chunks = (Inr out, w')" by simp_all
  from generate_answer_nonempty[OF n g]
  show "links out = map (\<lambda>c. (source c, take 150 (py_str (content c)))) context_chunks"
    and "length (links out) = length context_chunks"
    and "\<forall>c \<in> set context_chunks. \<exists>s. content c = PStr s"
    and "\<exists>prompt. prompts w' = prompts w @ [prompt]" by simp_all
qed

lemma str_nat_1: "str_nat (Suc 0) = ''1''"
  by (simp add: str_nat.simps[of "Suc 0"] digit_char_def)

theorem generate_answer_links_witness:
  "generate_answer fixed_generator \<lparr>gstate = (), prompts = []\<rparr> ''What?'' [hit ''hello world'' (7/10) 0] =
     (Inr \<lparr>answer = ''See Source 1.'', links = [(PStr ''Course: a'', ''hello world'')]\<rparr>,
      \<lparr>gstate = (), prompts = [make_prompt ''[Source 1]:\<newline>hello world\<newline>'' ''What?'']\<rparr>) \<and>
   links \<lparr>answer = ''See Source 1.'', links = [(PStr ''Course: a'', ''hello world'')]\<rparr> =
     map (\<lambda>c. (source c, take 150 (py_str (content c)))) [hit ''hello world'' (7/10) 0]"
proof -
  have g: "generate_answer fixed_generator \<lparr>gstate = (), prompts = []\<rparr> ''What?''
        [hit ''hello world'' (7/10) 0] =
     (Inr \<lparr>answer = ''See Source 1.'', links = [(PStr ''Course: a'', ''hello world'')]\<rparr>,
      \<lparr>gstate = (), prompts = [make_prompt ''[Source 1]:\<newline>hello world\<newline>'' ''What?'']\<rparr>)"
    by (simp add: generate_answer_def hit_def fixed_generator_def str_nat_1)
  show ?thesis
    using generate_answer_links[of fixed_generator "\<lparr>gstate = (), prompts = []\<rparr>" "''What?''"
        "[hit ''hello world'' (7/10) 0]"
        "\<lparr>answer = ''See Source 1.'', links = [(PStr ''Course: a'', ''hello world'')]\<rparr>"
        "\<lparr>gstate = (), prompts = [make_prompt ''[Source 1]:\<newline>hello world\<newline>'' ''What?'']\<rparr>"] g
    by simp
qed

end
